theory Spec2Isabelle
  imports Main "HOL-Library.Multiset"
begin

section \<open>JavaScript values as parsed from JSON and YAML\<close>

text \<open>
  Every document the scripts handle is the result of \<^verbatim>\<open>JSON.parse\<close> or \<^verbatim>\<open>yaml.load\<close>:
  a tree of null, booleans, numbers, strings, arrays and objects. An object is the list
  of its entries in the order \<^verbatim>\<open>Object.entries\<close> enumerates them. Numbers are modelled
  as integers (identifiers, step numbers, durations); fractions and values beyond
  \<open>2^53\<close> are outside the model. The JavaScript value \<^verbatim>\<open>undefined\<close> (a missing
  property) is \<open>None\<close> of \<open>json option\<close>.
\<close>

datatype json =
    JNull
  | JBool bool
  | JNum int
  | JStr string
  | JArr "json list"
  | JObj "(string \<times> json) list"

text \<open>Truthiness, for \<^verbatim>\<open>!x\<close>, \<^verbatim>\<open>x || y\<close> and \<^verbatim>\<open>if (x)\<close>.\<close>

fun truthy :: "json \<Rightarrow> bool" where
  "truthy JNull = False"
| "truthy (JBool b) = b"
| "truthy (JNum n) = (n \<noteq> 0)"
| "truthy (JStr s) = (s \<noteq> [])"
| "truthy (JArr xs) = True"
| "truthy (JObj kvs) = True"

definition truthy_opt :: "json option \<Rightarrow> bool" where
  "truthy_opt v = (case v of None \<Rightarrow> False | Some j \<Rightarrow> truthy j)"

text \<open>
  Reading a property of a value that is not null: an object yields the entry, anything
  else has none of the properties the scripts read by name. Reading a property of null
  throws, which every caller handles before calling \<open>get_prop\<close>.
\<close>

definition get_prop :: "json \<Rightarrow> string \<Rightarrow> json option" where
  "get_prop j k = (case j of JObj kvs \<Rightarrow> map_of kvs k | _ \<Rightarrow> None)"

text \<open>Assigning a property: an existing key keeps its place, a new key goes last.\<close>

fun set_prop :: "'k \<Rightarrow> 'v \<Rightarrow> ('k \<times> 'v) list \<Rightarrow> ('k \<times> 'v) list" where
  "set_prop k v [] = [(k, v)]"
| "set_prop k v (kv # kvs) = (if fst kv = k then (k, v) # kvs else kv # set_prop k v kvs)"

text \<open>\<^verbatim>\<open>delete obj.k\<close>\<close>

definition delete_prop :: "string \<Rightarrow> json \<Rightarrow> json" where
  "delete_prop k j = (case j of JObj kvs \<Rightarrow> JObj (filter (\<lambda>kv. fst kv \<noteq> k) kvs) | _ \<Rightarrow> j)"

text \<open>
  \<^verbatim>\<open>===\<close> and the key comparison of a \<^verbatim>\<open>Map\<close>: primitives are compared by value.
  Arrays and objects are compared by identity, and the two sides always come from
  different parsed or freshly built documents here, so they are never the same.
\<close>

fun is_prim :: "json \<Rightarrow> bool" where
  "is_prim (JArr xs) = False"
| "is_prim (JObj kvs) = False"
| "is_prim j = True"

definition same_value :: "json option \<Rightarrow> json option \<Rightarrow> bool" where
  "same_value a b =
     (case a of
        None \<Rightarrow> b = None
      | Some x \<Rightarrow> is_prim x \<and> b = Some x)"

text \<open>A \<^verbatim>\<open>Map\<close> keyed by such values: \<^verbatim>\<open>get\<close>/\<^verbatim>\<open>has\<close> and \<^verbatim>\<open>set\<close>.\<close>

fun map_get :: "(json option \<times> 'v) list \<Rightarrow> json option \<Rightarrow> 'v option" where
  "map_get [] k = None"
| "map_get (e # es) k = (if same_value (fst e) k then Some (snd e) else map_get es k)"

fun map_set :: "(json option \<times> 'v) list \<Rightarrow> json option \<Rightarrow> 'v \<Rightarrow> (json option \<times> 'v) list" where
  "map_set [] k v = [(k, v)]"
| "map_set (e # es) k v = (if same_value (fst e) k then (fst e, v) # es else e # map_set es k v)"

text \<open>
  What a script can end with instead of a result: an uncaught \<^verbatim>\<open>TypeError\<close> (a property
  of null or undefined is read, a property of a primitive is assigned in the strict code
  of a class body, something that is not a function is called), an \<^verbatim>\<open>Error\<close> thrown by
  the script itself, or \<open>Unsupported\<close>: a document on which JavaScript goes on with an
  array used as an object or an object used as an array, which the model leaves out.
\<close>

datatype error = TypeError | Error string | Unsupported

subsection \<open>Strings and numbers\<close>

text \<open>
  Strings are byte strings here; the case conversions, \<^verbatim>\<open>trim\<close> and \<^verbatim>\<open>parseInt\<close> are
  modelled on ASCII, which is what methods, header names and ids are made of.
\<close>

definition digit_char :: "int \<Rightarrow> char" where
  "digit_char d =
     (if d = 0 then CHR ''0'' else if d = 1 then CHR ''1'' else if d = 2 then CHR ''2''
      else if d = 3 then CHR ''3'' else if d = 4 then CHR ''4'' else if d = 5 then CHR ''5''
      else if d = 6 then CHR ''6'' else if d = 7 then CHR ''7'' else if d = 8 then CHR ''8''
      else CHR ''9'')"

function decimal :: "int \<Rightarrow> string" where
  "decimal n = (if n < 10 then [digit_char n] else decimal (n div 10) @ [digit_char (n mod 10)])"
  by pat_completeness auto
termination
  by (relation "measure nat") auto

declare decimal.simps [simp del]

definition string_of_int :: "int \<Rightarrow> string" where
  "string_of_int i = (if i < 0 then ''-'' @ decimal (- i) else decimal i)"

text \<open>\<^verbatim>\<open>Array.prototype.join\<close> with a separator.\<close>

fun join :: "string \<Rightarrow> string list \<Rightarrow> string" where
  "join sep [] = []"
| "join sep [x] = x"
| "join sep (x # y # ys) = x @ sep @ join sep (y # ys)"

text \<open>
  \<^verbatim>\<open>String(v)\<close> and the conversion inside a template literal: an array is the join of its
  elements by a comma, with null elements left empty; an object is
  \<^verbatim>\<open>[object Object]\<close>.
\<close>

fun js_String :: "json \<Rightarrow> string"
  and js_String_elems :: "json list \<Rightarrow> string list"
where
  "js_String JNull = ''null''"
| "js_String (JBool b) = (if b then ''true'' else ''false'')"
| "js_String (JNum n) = string_of_int n"
| "js_String (JStr s) = s"
| "js_String (JArr xs) = join '','' (js_String_elems xs)"
| "js_String (JObj kvs) = ''[object Object]''"
| "js_String_elems [] = []"
| "js_String_elems (x # xs) = (if x = JNull then [] else js_String x) # js_String_elems xs"

definition js_String_opt :: "json option \<Rightarrow> string" where
  "js_String_opt v = (case v of None \<Rightarrow> ''undefined'' | Some j \<Rightarrow> js_String j)"

definition lower_char :: "char \<Rightarrow> char" where
  "lower_char c =
     (case List.find (\<lambda>p. fst p = c) (zip ''ABCDEFGHIJKLMNOPQRSTUVWXYZ'' ''abcdefghijklmnopqrstuvwxyz'') of
        Some p \<Rightarrow> snd p | None \<Rightarrow> c)"

definition upper_char :: "char \<Rightarrow> char" where
  "upper_char c =
     (case List.find (\<lambda>p. fst p = c) (zip ''abcdefghijklmnopqrstuvwxyz'' ''ABCDEFGHIJKLMNOPQRSTUVWXYZ'') of
        Some p \<Rightarrow> snd p | None \<Rightarrow> c)"

definition toLowerCase :: "string \<Rightarrow> string" where
  "toLowerCase s = map lower_char s"

definition toUpperCase :: "string \<Rightarrow> string" where
  "toUpperCase s = map upper_char s"

definition is_space :: "char \<Rightarrow> bool" where
  "is_space c \<longleftrightarrow> c \<in> set [CHR '' '', CHR 0x09, CHR 0x0A, CHR 0x0B, CHR 0x0C, CHR 0x0D]"

definition trim :: "string \<Rightarrow> string" where
  "trim s = rev (dropWhile is_space (rev (dropWhile is_space s)))"

definition endsWith :: "string \<Rightarrow> string \<Rightarrow> bool" where
  "endsWith s suffix \<longleftrightarrow> length suffix \<le> length s \<and> drop (length s - length suffix) s = suffix"

text \<open>
  \<^verbatim>\<open>parseInt(v)\<close>: the string form of \<open>v\<close>, leading white space skipped, an optional
  sign, then hexadecimal digits after \<^verbatim>\<open>0x\<close> or else decimal digits, as far as they go;
  \<open>None\<close> is NaN.
\<close>

definition digit_val :: "char \<Rightarrow> int option" where
  "digit_val c =
     (case List.find (\<lambda>p. fst p = c) (zip ''0123456789'' [0, 1, 2, 3, 4, 5, 6, 7, 8, 9]) of
        Some p \<Rightarrow> Some (snd p) | None \<Rightarrow> None)"

definition hex_val :: "char \<Rightarrow> int option" where
  "hex_val c =
     (case List.find (\<lambda>p. fst p = c)
             (zip ''0123456789abcdefABCDEF''
                [0, 1, 2, 3, 4, 5, 6, 7, 8, 9, 10, 11, 12, 13, 14, 15, 10, 11, 12, 13, 14, 15]) of
        Some p \<Rightarrow> Some (snd p) | None \<Rightarrow> None)"

definition parse_digits :: "(char \<Rightarrow> int option) \<Rightarrow> int \<Rightarrow> string \<Rightarrow> int option" where
  "parse_digits val base s =
     (let ds = takeWhile (\<lambda>c. val c \<noteq> None) s
      in if ds = [] then None else Some (foldl (\<lambda>acc c. acc * base + the (val c)) 0 ds))"

definition parse_unsigned :: "string \<Rightarrow> int option" where
  "parse_unsigned s =
     (if take 2 s = ''0x'' \<or> take 2 s = ''0X'' then parse_digits hex_val 16 (drop 2 s)
      else parse_digits digit_val 10 s)"

definition parseInt_string :: "string \<Rightarrow> int option" where
  "parseInt_string s =
     (let t = dropWhile is_space s
      in if take 1 t = ''-'' then map_option uminus (parse_unsigned (drop 1 t))
         else if take 1 t = ''+'' then parse_unsigned (drop 1 t)
         else parse_unsigned t)"

definition parseInt :: "json option \<Rightarrow> int option" where
  "parseInt v = parseInt_string (js_String_opt v)"

text \<open>A number that may be NaN, as \<^verbatim>\<open>JSON.stringify\<close> writes it.\<close>

definition num_json :: "int option \<Rightarrow> json" where
  "num_json n = (case n of None \<Rightarrow> JNull | Some i \<Rightarrow> JNum i)"

text \<open>
  \<^verbatim>\<open>s.replace(/\r\n/g, '\n').replace(/\r/g, '\n')\<close>, and the same followed by
  \<^verbatim>\<open>.replace(/\n/g, '\r\n')\<close>.
\<close>

fun crlf_to_lf :: "string \<Rightarrow> string" where
  "crlf_to_lf [] = []"
| "crlf_to_lf [c] = [c]"
| "crlf_to_lf (c # d # cs) =
     (if c = CHR 0x0D \<and> d = CHR 0x0A then CHR 0x0A # crlf_to_lf cs else c # crlf_to_lf (d # cs))"

definition to_lf :: "string \<Rightarrow> string" where
  "to_lf s = map (\<lambda>c. if c = CHR 0x0D then CHR 0x0A else c) (crlf_to_lf s)"

definition to_crlf :: "string \<Rightarrow> string" where
  "to_crlf s = concat (map (\<lambda>c. if c = CHR 0x0A then [CHR 0x0D, CHR 0x0A] else [c]) (to_lf s))"

section \<open>The collection merger (scripts/merge\_test\_cases.js)\<close>

subsection \<open>Identifier allocation\<close>

text \<open>
  \<^verbatim>\<open>class TestCaseMerger\<close>: \<^verbatim>\<open>usedIds\<close> is a JavaScript \<^verbatim>\<open>Set\<close>, kept here as the list
  of its members in insertion order; \<^verbatim>\<open>nextId\<close> starts at 10000000.
\<close>

record merger =
  usedIds :: "int list"
  nextId :: int

definition new_merger :: merger where
  "new_merger = \<lparr>usedIds = [], nextId = 10000000\<rparr>"

text \<open>\<^verbatim>\<open>Set.prototype.add\<close>: a member already present is not added again.\<close>

definition set_add :: "int \<Rightarrow> int list \<Rightarrow> int list" where
  "set_add v used = (if v \<in> set used then used else used @ [v])"

text \<open>\<^verbatim>\<open>while (this.usedIds.has(this.nextId)) this.nextId++\<close>\<close>

function skip_used :: "int list \<Rightarrow> int \<Rightarrow> int" where
  "skip_used used n = (if n \<in> set used then skip_used used (n + 1) else n)"
  by pat_completeness auto
termination
proof (relation "measure (\<lambda>(used, n). length (filter (\<lambda>x. n \<le> x) used))")
  show "wf (measure (\<lambda>(used, n). length (filter (\<lambda>x. n \<le> x) used)))"
    by simp
next
  fix used :: "int list" and n :: int
  assume mem: "n \<in> set used"
  have "length (filter (\<lambda>x. n + 1 \<le> x) used) < length (filter (\<lambda>x. n \<le> x) used)"
    using mem
  proof (induction used)
    case Nil
    then show ?case by simp
  next
    case (Cons a used)
    have le: "length (filter (\<lambda>x. n + 1 \<le> x) used) \<le> length (filter (\<lambda>x. n \<le> x) used)"
      by (induction used) auto
    show ?case
    proof (cases "a = n")
      case True
      then show ?thesis using le by simp
    next
      case False
      with Cons have "n \<in> set used" by simp
      from Cons.IH [OF this] show ?thesis by auto
    qed
  qed
  then show "((used, n + 1), (used, n)) \<in> measure (\<lambda>(used, n). length (filter (\<lambda>x. n \<le> x) used))"
    by simp
qed

declare skip_used.simps [simp del]

text \<open>\<^verbatim>\<open>getNextId()\<close>: skip the used ids, record the id found, return it and step past it.\<close>

definition getNextId :: "merger \<Rightarrow> int \<times> merger" where
  "getNextId m =
     (let n = skip_used (usedIds m) (nextId m)
      in (n, \<lparr>usedIds = set_add n (usedIds m), nextId = n + 1\<rparr>))"

subsection \<open>Collecting the ids of the existing document\<close>

text \<open>
  \<^verbatim>\<open>collectUsedIds(obj)\<close>: null and primitives are left alone; an array is walked
  element by element; an object contributes \<^verbatim>\<open>obj.id\<close> when that is a number and truthy
  (so never 0), and then every property value is walked.
\<close>

fun collectUsedIds :: "json \<Rightarrow> int list \<Rightarrow> int list"
  and collectUsedIds_items :: "json list \<Rightarrow> int list \<Rightarrow> int list"
  and collectUsedIds_values :: "(string \<times> json) list \<Rightarrow> int list \<Rightarrow> int list"
where
  "collectUsedIds (JArr xs) used = collectUsedIds_items xs used"
| "collectUsedIds (JObj kvs) used =
     collectUsedIds_values kvs
       (case map_of kvs ''id'' of
          Some (JNum n) \<Rightarrow> if n \<noteq> 0 then set_add n used else used
        | _ \<Rightarrow> used)"
| "collectUsedIds JNull used = used"
| "collectUsedIds (JBool b) used = used"
| "collectUsedIds (JNum n) used = used"
| "collectUsedIds (JStr s) used = used"
| "collectUsedIds_items [] used = used"
| "collectUsedIds_items (x # xs) used = collectUsedIds_items xs (collectUsedIds x used)"
| "collectUsedIds_values [] used = used"
| "collectUsedIds_values (kv # kvs) used =
     collectUsedIds_values kvs (collectUsedIds (snd kv) used)"

subsection \<open>Reassigning the ids of an incoming test case\<close>

text \<open>
  \<^verbatim>\<open>reassignIds(testCase)\<close> walks the test case with a fresh \<^verbatim>\<open>idMap\<close>. At a numeric
  value under the key \<^verbatim>\<open>id\<close>: an id in \<^verbatim>\<open>usedIds\<close> is replaced by \<^verbatim>\<open>idMap.get(value)\<close>,
  minted with \<^verbatim>\<open>getNextId()\<close> the first time; an id not in \<^verbatim>\<open>usedIds\<close> is added to it
  and kept.

  The copy of an object is built by \<^verbatim>\<open>newObj[key] = ...\<close>. For the key \<^verbatim>\<open>__proto__\<close> this
  assignment runs the setter that every object inherits: the value is walked like any
  other, but the copy gets no property of that name, so the entry is missing from the
  copy as it is written out. (An object or array there becomes the prototype of the
  copy; see \<open>merge_test_case\<close> for the one place where that could be read.)
\<close>

type_synonym idmap = "int \<rightharpoonup> int"

definition reassign_id :: "int \<Rightarrow> merger \<times> idmap \<Rightarrow> int \<times> (merger \<times> idmap)" where
  "reassign_id v s =
     (case s of (m, idMap) \<Rightarrow>
        if v \<in> set (usedIds m) then
          (case idMap v of
             Some w \<Rightarrow> (w, (m, idMap))
           | None \<Rightarrow> (case getNextId m of (w, m') \<Rightarrow> (w, (m', idMap(v \<mapsto> w)))))
        else (v, (m\<lparr>usedIds := set_add v (usedIds m)\<rparr>, idMap)))"

fun reassignRecursive :: "json \<Rightarrow> merger \<times> idmap \<Rightarrow> json \<times> (merger \<times> idmap)"
  and reassignRecursive_items :: "json list \<Rightarrow> merger \<times> idmap \<Rightarrow> json list \<times> (merger \<times> idmap)"
  and reassignRecursive_entries ::
    "(string \<times> json) list \<Rightarrow> merger \<times> idmap \<Rightarrow> (string \<times> json) list \<times> (merger \<times> idmap)"
where
  "reassignRecursive (JArr xs) s =
     (case reassignRecursive_items xs s of (ys, s') \<Rightarrow> (JArr ys, s'))"
| "reassignRecursive (JObj kvs) s =
     (case reassignRecursive_entries kvs s of (kvs', s') \<Rightarrow> (JObj kvs', s'))"
| "reassignRecursive JNull s = (JNull, s)"
| "reassignRecursive (JBool b) s = (JBool b, s)"
| "reassignRecursive (JNum n) s = (JNum n, s)"
| "reassignRecursive (JStr t) s = (JStr t, s)"
| "reassignRecursive_items [] s = ([], s)"
| "reassignRecursive_items (x # xs) s =
     (case reassignRecursive x s of (y, s1) \<Rightarrow>
        (case reassignRecursive_items xs s1 of (ys, s2) \<Rightarrow> (y # ys, s2)))"
| "reassignRecursive_entries [] s = ([], s)"
| "reassignRecursive_entries ((key, JNum v) # kvs) s =
     (if key = ''id'' then
        (case reassign_id v s of (w, s1) \<Rightarrow>
           (case reassignRecursive_entries kvs s1 of (kvs', s2) \<Rightarrow> ((key, JNum w) # kvs', s2)))
      else
        (case reassignRecursive_entries kvs s of (kvs', s2) \<Rightarrow>
           (if key = ''__proto__'' then kvs' else (key, JNum v) # kvs', s2)))"
| "reassignRecursive_entries ((key, val) # kvs) s =
     (case reassignRecursive val s of (val', s1) \<Rightarrow>
        (case reassignRecursive_entries kvs s1 of (kvs', s2) \<Rightarrow>
           (if key = ''__proto__'' then kvs' else (key, val') # kvs', s2)))"

definition reassignIds :: "json \<Rightarrow> merger \<Rightarrow> json \<times> merger" where
  "reassignIds testCase m =
     (case reassignRecursive testCase (m, Map.empty) of (out, (m', idMap)) \<Rightarrow> (out, m'))"

subsection \<open>Merging into the collection document\<close>

text \<open>
  The state \<^verbatim>\<open>mergeIntoApidog\<close> works on once the root collection is found: the root's
  \<^verbatim>\<open>items\<close> and \<^verbatim>\<open>children\<close> arrays, \<^verbatim>\<open>existingTestCasesByFolder\<close> (key \<^verbatim>\<open>null\<close> is the
  root level) and the merger's own fields.
\<close>

record merge_state =
  root_items :: "json list"
  root_children :: "json list"
  byFolder :: "(json option \<times> (json option \<times> nat) list) list"
  mg :: merger

text \<open>\<^verbatim>\<open>items.forEach((item, index) => map.set(item.name, index))\<close>\<close>

fun index_items :: "json list \<Rightarrow> nat \<Rightarrow> (json option \<times> nat) list \<Rightarrow> error + (json option \<times> nat) list" where
  "index_items [] i idx = Inr idx"
| "index_items (item # items) i idx =
     (if item = JNull then Inl TypeError
      else index_items items (i + 1) (map_set idx (get_prop item ''name'') i))"

text \<open>The folders whose \<^verbatim>\<open>items\<close> is an array are indexed under \<^verbatim>\<open>folder.name\<close>.\<close>

definition array_items :: "json \<Rightarrow> json list option" where
  "array_items folder = (case get_prop folder ''items'' of Some (JArr xs) \<Rightarrow> Some xs | _ \<Rightarrow> None)"

fun index_folders ::
  "json list \<Rightarrow> (json option \<times> (json option \<times> nat) list) list \<Rightarrow>
   error + (json option \<times> (json option \<times> nat) list) list" where
  "index_folders [] byF = Inr byF"
| "index_folders (folder # folders) byF =
     (if folder = JNull then Inl TypeError
      else
        (case array_items folder of
           Some items \<Rightarrow>
             (case index_items items 0 [] of
                Inl e \<Rightarrow> Inl e
              | Inr idx \<Rightarrow> index_folders folders (map_set byF (get_prop folder ''name'') idx))
         | None \<Rightarrow> index_folders folders byF))"

text \<open>\<^verbatim>\<open>rootCollection.children.find(child => child.name === folderName)\<close>, as an index.\<close>

fun find_folder :: "json list \<Rightarrow> json \<Rightarrow> error + nat option" where
  "find_folder [] folderName = Inr None"
| "find_folder (child # children) folderName =
     (if child = JNull then Inl TypeError
      else if same_value (get_prop child ''name'') (Some folderName) then Inr (Some 0)
      else (case find_folder children folderName of
              Inl e \<Rightarrow> Inl e
            | Inr None \<Rightarrow> Inr None
            | Inr (Some i) \<Rightarrow> Inr (Some (Suc i))))"

definition new_folder :: "json \<Rightarrow> json" where
  "new_folder folderName =
     JObj [(''name'', folderName), (''description'', JStr ''''), (''children'', JArr []),
           (''items'', JArr [])]"

text \<open>\<^verbatim>\<open>if (!folder.items) folder.items = []\<close>, on a folder that was found by its name.\<close>

definition ensure_items :: "json \<Rightarrow> json" where
  "ensure_items folder =
     (if truthy_opt (get_prop folder ''items'') then folder
      else (case folder of JObj kvs \<Rightarrow> JObj (set_prop ''items'' (JArr []) kvs) | _ \<Rightarrow> folder))"

text \<open>
  \<^verbatim>\<open>findOrCreateFolder(folderName)\<close>: the children array afterwards and the position of
  the folder in it.
\<close>

definition findOrCreateFolder :: "json list \<Rightarrow> json \<Rightarrow> error + (json list \<times> nat)" where
  "findOrCreateFolder children folderName =
     (case find_folder children folderName of
        Inl e \<Rightarrow> Inl e
      | Inr None \<Rightarrow> Inr (children @ [new_folder folderName], length children)
      | Inr (Some i) \<Rightarrow> Inr (children[i := ensure_items (children ! i)], i))"

text \<open>
  \<^verbatim>\<open>items[index] = x\<close>: an index past the end leaves holes, which \<^verbatim>\<open>JSON.stringify\<close>
  writes as null. The arrays this is applied to hold no null of their own (indexing
  them has read \<^verbatim>\<open>item.name\<close> of every element), so a null in them is a hole.
\<close>

definition assign_index :: "json list \<Rightarrow> nat \<Rightarrow> json \<Rightarrow> json list" where
  "assign_index xs i v =
     (if i < length xs then xs[i := v] else xs @ replicate (i - length xs) JNull @ [v])"

text \<open>
  The update-or-append step on an \<^verbatim>\<open>items\<close> array with its name index:
  \<^verbatim>\<open>if (testCasesMap.has(name)) items[testCasesMap.get(name)] = tc; else { items.push(tc);
  testCasesMap.set(name, items.length - 1) }\<close>
\<close>

definition put_item ::
  "json list \<Rightarrow> (json option \<times> nat) list \<Rightarrow> json \<Rightarrow> json list \<times> (json option \<times> nat) list" where
  "put_item items idx tc =
     (case map_get idx (get_prop tc ''name'') of
        Some i \<Rightarrow> (assign_index items i tc, idx)
      | None \<Rightarrow> (items @ [tc], map_set idx (get_prop tc ''name'') (length items)))"

text \<open>\<^verbatim>\<open>existingTestCasesByFolder.get(key)\<close>, after a missing entry was set to a new map.\<close>

definition index_for :: "(json option \<times> (json option \<times> nat) list) list \<Rightarrow> json \<Rightarrow> (json option \<times> nat) list" where
  "index_for byF key = (case map_get byF (Some key) of Some idx \<Rightarrow> idx | None \<Rightarrow> [])"

text \<open>The test case goes to the root level (\<^verbatim>\<open>folderName\<close> is null).\<close>

definition merge_into_root :: "json \<Rightarrow> merger \<Rightarrow> merge_state \<Rightarrow> merge_state" where
  "merge_into_root processed m' st =
     (case put_item (root_items st) (index_for (byFolder st) JNull) processed of
        (xs', idx') \<Rightarrow>
          \<lparr>root_items = xs', root_children = root_children st,
           byFolder = map_set (byFolder st) (Some JNull) idx', mg = m'\<rparr>)"

text \<open>
  The test case goes to a folder. A folder found by name is an object (nothing else has
  a \<^verbatim>\<open>name\<close>). When its \<^verbatim>\<open>items\<close> is truthy and not an array, \<^verbatim>\<open>push\<close> is not a function,
  and an indexed assignment fails on a primitive and is left out of the model on an
  object.
\<close>

definition with_items :: "json \<Rightarrow> json list \<Rightarrow> json" where
  "with_items folder xs =
     (case folder of JObj kvs \<Rightarrow> JObj (set_prop ''items'' (JArr xs) kvs) | _ \<Rightarrow> folder)"

definition merge_into_folder :: "json \<Rightarrow> json \<Rightarrow> merger \<Rightarrow> merge_state \<Rightarrow> error + merge_state" where
  "merge_into_folder folderName processed m' st =
     (case findOrCreateFolder (root_children st) folderName of
        Inl e \<Rightarrow> Inl e
      | Inr (children1, pos) \<Rightarrow>
          (case get_prop (children1 ! pos) ''items'' of
             Some (JArr xs) \<Rightarrow>
               (case put_item xs (index_for (byFolder st) folderName) processed of
                  (xs', idx') \<Rightarrow>
                    Inr \<lparr>root_items = root_items st,
                         root_children = children1[pos := with_items (children1 ! pos) xs'],
                         byFolder = map_set (byFolder st) (Some folderName) idx',
                         mg = m'\<rparr>)
           | Some (JObj kvs) \<Rightarrow>
               (case map_get (index_for (byFolder st) folderName) (get_prop processed ''name'') of
                  Some i \<Rightarrow> Inl Unsupported
                | None \<Rightarrow> Inl TypeError)
           | _ \<Rightarrow> Inl TypeError))"

text \<open>\<^verbatim>\<open>processedTestCase._folder || null\<close>\<close>

definition folder_name :: "json \<Rightarrow> json" where
  "folder_name p = (if truthy_opt (get_prop p ''_folder'') then the (get_prop p ''_folder'') else JNull)"

text \<open>
  A test case with an object or array under its own key \<^verbatim>\<open>__proto__\<close>: the copy that
  \<^verbatim>\<open>reassignIds\<close> returns has that value as its prototype, and \<^verbatim>\<open>_folder\<close>, \<^verbatim>\<open>name\<close> and
  \<^verbatim>\<open>ordering\<close> of the copy would be read through it.
\<close>

definition sets_prototype :: "json \<Rightarrow> bool" where
  "sets_prototype data =
     (case get_prop data ''__proto__'' of
        Some (JObj kvs) \<Rightarrow> True
      | Some (JArr xs) \<Rightarrow> True
      | _ \<Rightarrow> False)"

text \<open>
  One round of the loop \<^verbatim>\<open>for (const { file, data } of this.testCases)\<close>. A test case
  that sets the prototype of its copy is left out of the model.
\<close>

definition merge_test_case :: "json \<Rightarrow> merge_state \<Rightarrow> error + merge_state" where
  "merge_test_case data st =
     (case reassignIds data (mg st) of (processedTestCase, m') \<Rightarrow>
        if sets_prototype data then Inl Unsupported
        else if processedTestCase = JNull then Inl TypeError
        else if truthy (folder_name processedTestCase) then
          merge_into_folder (folder_name processedTestCase)
            (delete_prop ''_folder'' processedTestCase) m' st
        else Inr (merge_into_root (delete_prop ''_folder'' processedTestCase) m' st))"

fun merge_test_cases :: "json list \<Rightarrow> merge_state \<Rightarrow> error + merge_state" where
  "merge_test_cases [] st = Inr st"
| "merge_test_cases (data # rest) st =
     (case merge_test_case data st of
        Inl e \<Rightarrow> Inl e
      | Inr st' \<Rightarrow> merge_test_cases rest st')"

text \<open>
  \<^verbatim>\<open>items.sort((a, b) => (a.ordering || 0) - (b.ordering || 0))\<close>. The sort is stable;
  holes go last and are never compared. An \<^verbatim>\<open>ordering\<close> that is a number counts as
  itself, \<^verbatim>\<open>true\<close> as 1, a falsy or missing one as 0. For a string, array or object
  the subtraction coerces to a number or to NaN, where the order is up to the engine:
  the model has no sort key for such an \<^verbatim>\<open>ordering\<close> (\<open>None\<close>) and leaves the sort of an
  array that holds one out (\<open>Unsupported\<close>).
\<close>

definition ordering_of :: "json \<Rightarrow> int option" where
  "ordering_of a =
     (case get_prop a ''ordering'' of
        None \<Rightarrow> Some 0
      | Some JNull \<Rightarrow> Some 0
      | Some (JNum n) \<Rightarrow> Some n
      | Some (JBool b) \<Rightarrow> Some (if b then 1 else 0)
      | Some (JStr s) \<Rightarrow> if s = [] then Some 0 else None
      | Some (JArr xs) \<Rightarrow> None
      | Some (JObj kvs) \<Rightarrow> None)"

definition sort_items :: "json list \<Rightarrow> error + json list" where
  "sort_items xs =
     (if list_all (\<lambda>x. x = JNull \<or> ordering_of x \<noteq> None) xs
      then Inr (sort_key (\<lambda>x. the (ordering_of x)) (filter (\<lambda>x. x \<noteq> JNull) xs)
                @ filter (\<lambda>x. x = JNull) xs)
      else Inl Unsupported)"

definition sort_folder :: "json \<Rightarrow> error + json" where
  "sort_folder folder =
     (case array_items folder of
        Some xs \<Rightarrow> (case sort_items xs of
                      Inl e \<Rightarrow> Inl e
                    | Inr ys \<Rightarrow> Inr (with_items folder ys))
      | None \<Rightarrow> Inr folder)"

fun sort_folders :: "json list \<Rightarrow> error + json list" where
  "sort_folders [] = Inr []"
| "sort_folders (folder # folders) =
     (case sort_folder folder of
        Inl e \<Rightarrow> Inl e
      | Inr folder' \<Rightarrow>
          (case sort_folders folders of
             Inl e \<Rightarrow> Inl e
           | Inr folders' \<Rightarrow> Inr (folder' # folders')))"

definition new_root :: "(string \<times> json) list" where
  "new_root = [(''name'', JStr ''Root''), (''children'', JArr []), (''items'', JArr [])]"

text \<open>
  The part of \<^verbatim>\<open>mergeIntoApidog\<close> that works on \<^verbatim>\<open>rootCollection\<close>: default the two
  arrays, build the name indexes, run the loop, sort, and store the arrays back.
  A truthy \<^verbatim>\<open>items\<close> or \<^verbatim>\<open>children\<close> that is not an array has no \<^verbatim>\<open>forEach\<close>.
\<close>

definition array_or_empty :: "json option \<Rightarrow> error + json list" where
  "array_or_empty v =
     (if truthy_opt v then (case v of Some (JArr xs) \<Rightarrow> Inr xs | _ \<Rightarrow> Inl TypeError)
      else Inr [])"

definition initial_state ::
  "(string \<times> json) list \<Rightarrow> merger \<Rightarrow> error + merge_state" where
  "initial_state root m =
     (case array_or_empty (map_of root ''items'') of
        Inl e \<Rightarrow> Inl e
      | Inr items \<Rightarrow>
     (case array_or_empty (map_of root ''children'') of
        Inl e \<Rightarrow> Inl e
      | Inr children \<Rightarrow>
     (case index_items items 0 [] of
        Inl e \<Rightarrow> Inl e
      | Inr rootTestCases \<Rightarrow>
     (case index_folders children [(Some JNull, rootTestCases)] of
        Inl e \<Rightarrow> Inl e
      | Inr byF \<Rightarrow>
          Inr \<lparr>root_items = items, root_children = children, byFolder = byF, mg = m\<rparr>))))"

definition store_sorted ::
  "(string \<times> json) list \<Rightarrow> merge_state \<Rightarrow> error + (string \<times> json) list" where
  "store_sorted root st =
     (case sort_items (root_items st) of
        Inl e \<Rightarrow> Inl e
      | Inr items \<Rightarrow>
          (case sort_folders (root_children st) of
             Inl e \<Rightarrow> Inl e
           | Inr children \<Rightarrow>
               Inr (set_prop ''children'' (JArr children) (set_prop ''items'' (JArr items) root))))"

definition merge_root ::
  "(string \<times> json) list \<Rightarrow> json list \<Rightarrow> merger \<Rightarrow> error + ((string \<times> json) list \<times> merger)" where
  "merge_root root testCases m =
     (case initial_state root m of
        Inl e \<Rightarrow> Inl e
      | Inr st0 \<Rightarrow>
     (case merge_test_cases testCases st0 of
        Inl e \<Rightarrow> Inl e
      | Inr st \<Rightarrow>
     (case store_sorted root st of
        Inl e \<Rightarrow> Inl e
      | Inr root' \<Rightarrow> Inr (root', mg st))))"

text \<open>
  \<^verbatim>\<open>apidogData.apiTestCaseCollection\<close> after the two defaults: a falsy value becomes
  \<^verbatim>\<open>[]\<close>, an empty array gets the new Root collection.
\<close>

definition collections_of :: "(string \<times> json) list \<Rightarrow> json" where
  "collections_of doc =
     (if truthy_opt (map_of doc ''apiTestCaseCollection'')
      then (case the (map_of doc ''apiTestCaseCollection'') of
              JArr [] \<Rightarrow> JArr [JObj new_root]
            | v \<Rightarrow> v)
      else JArr [JObj new_root])"

text \<open>
  \<^verbatim>\<open>mergeIntoApidog\<close> without the file access: \<open>apidogData\<close> is the parsed base file,
  \<open>testCases\<close> the \<^verbatim>\<open>data\<close> of \<^verbatim>\<open>this.testCases\<close>, and the result is the document that
  is written out, with the merger's final state.
\<close>

definition mergeIntoApidog :: "json \<Rightarrow> json list \<Rightarrow> merger \<Rightarrow> error + (json \<times> merger)" where
  "mergeIntoApidog apidogData testCases m =
     (case apidogData of
        JObj doc \<Rightarrow>
          (case collections_of doc of
             JArr (JObj root # others) \<Rightarrow>
               (case merge_root root testCases
                       (m\<lparr>usedIds := collectUsedIds apidogData (usedIds m)\<rparr>) of
                  Inl e \<Rightarrow> Inl e
                | Inr (root', m2) \<Rightarrow>
                    Inr (JObj (set_prop ''apiTestCaseCollection''
                                 (JArr (JObj root' # others)) doc), m2))
           | JArr (JArr xs # others) \<Rightarrow> Inl Unsupported
           | JObj kvs \<Rightarrow> Inl Unsupported
           | _ \<Rightarrow> Inl TypeError)
      | JArr xs \<Rightarrow> Inl Unsupported
      | _ \<Rightarrow> Inl TypeError)"

text \<open>\<open>merge(C, T)\<close> of the specification: a fresh merger applied to \<open>C\<close> and \<open>T\<close>.\<close>

definition merge :: "json \<Rightarrow> json list \<Rightarrow> error + json" where
  "merge C T = (case mergeIntoApidog C T new_merger of Inl e \<Rightarrow> Inl e | Inr (D, m) \<Rightarrow> Inr D)"

section \<open>The forward converter (scripts/node/convert\_scenario.js)\<close>

subsection \<open>Small helpers\<close>

text \<open>\<^verbatim>\<open>a || b\<close> on a property that may be missing.\<close>

definition js_or :: "json option \<Rightarrow> json \<Rightarrow> json" where
  "js_or a b = (if truthy_opt a then the a else b)"

text \<open>
  An object literal: a property whose value is \<^verbatim>\<open>undefined\<close> is left out, as
  \<^verbatim>\<open>JSON.stringify\<close> leaves it out.
\<close>

definition obj :: "(string \<times> json option) list \<Rightarrow> json" where
  "obj props = JObj (List.map_filter (\<lambda>kv. map_option (Pair (fst kv)) (snd kv)) props)"

text \<open>
  Where the scripts iterate over a property, the model takes an array, or nothing when
  the property is falsy or missing and the script guards the loop; any other value is
  \<open>Unsupported\<close>.
\<close>

definition list_prop :: "json \<Rightarrow> string \<Rightarrow> error + json list" where
  "list_prop j k =
     (if truthy_opt (get_prop j k)
      then (case the (get_prop j k) of JArr xs \<Rightarrow> Inr xs | _ \<Rightarrow> Inl Unsupported)
      else Inr [])"

lemma map_of_size: "map_of kvs k = Some v \<Longrightarrow> size v < Suc (size_list (size_prod (\<lambda>x. 0) size) kvs)"
  by (induction kvs) (auto split: if_splits)

lemma list_prop_size: "list_prop j k = Inr xs \<Longrightarrow> size_list size xs \<le> size j"
  by (cases j)
     (auto simp: list_prop_def get_prop_def truthy_opt_def split: option.splits json.splits if_splits
        dest!: map_of_size)

text \<open>
  Nested reads and writes along a path of keys: \<^verbatim>\<open>a.b.c\<close> where every step but the
  last is known to be truthy, and an assignment to \<^verbatim>\<open>a.b.c\<close>.
\<close>

fun get_path :: "json \<Rightarrow> string list \<Rightarrow> json option" where
  "get_path j [] = Some j"
| "get_path j (k # ks) = (case get_prop j k of None \<Rightarrow> None | Some v \<Rightarrow> get_path v ks)"

fun set_path :: "string list \<Rightarrow> json \<Rightarrow> json \<Rightarrow> json" where
  "set_path [] v j = v"
| "set_path (k # ks) v j =
     (case j of
        JObj kvs \<Rightarrow> (case map_of kvs k of
                       Some old \<Rightarrow> JObj (set_prop k (set_path ks v old) kvs)
                     | None \<Rightarrow> j)
      | _ \<Rightarrow> j)"

subsection \<open>The converter and its indexes\<close>

text \<open>
  \<^verbatim>\<open>class ApidogConverter\<close>. The API items of the source file are objects that the
  indexes share and that a conversion can write to, so they live in a store,
  \<open>apiItems\<close>, and the indexes hold their positions: \<^verbatim>\<open>apiByPath\<close> maps the
  folder-qualified path to an item, \<^verbatim>\<open>apiDefinitions\<close> a name to an item or, for a
  name that occurs more than once, to the array of \<^verbatim>\<open>{item, path}\<close> entries.
  \<^verbatim>\<open>testCases\<close> and \<^verbatim>\<open>testCasesById\<close> are undefined (\<open>None\<close>) until a source file is
  loaded. \<^verbatim>\<open>crypto.randomUUID()\<close> takes its values from \<open>uuidSource\<close>.
\<close>

datatype api_entry = Single nat | Multi "(nat \<times> string) list"

record converter =
  convNextId :: int
  apiItems :: "json list"
  apiDefinitions :: "(json option \<times> api_entry) list"
  apiByPath :: "(string \<times> nat) list"
  testCases :: "(json option \<times> json) list option"
  testCasesById :: "(json option \<times> json) list option"
  uuidSource :: "nat \<Rightarrow> string"
  uuidCount :: nat

definition new_converter :: "(nat \<Rightarrow> string) \<Rightarrow> converter" where
  "new_converter u =
     \<lparr>convNextId = 10000000, apiItems = [], apiDefinitions = [], apiByPath = [],
      testCases = None, testCasesById = None, uuidSource = u, uuidCount = 0\<rparr>"

text \<open>\<^verbatim>\<open>generateId() { return ++this.nextId; }\<close>\<close>

definition generateId :: "converter \<Rightarrow> int \<times> converter" where
  "generateId c = (convNextId c + 1, c\<lparr>convNextId := convNextId c + 1\<rparr>)"

definition randomUUID :: "converter \<Rightarrow> string \<times> converter" where
  "randomUUID c = (uuidSource c (uuidCount c), c\<lparr>uuidCount := uuidCount c + 1\<rparr>)"

text \<open>\<^verbatim>\<open>indexTestCases(collections)\<close>\<close>

fun index_test_items ::
  "json list \<Rightarrow> (json option \<times> json) list \<times> (json option \<times> json) list \<Rightarrow>
   error + ((json option \<times> json) list \<times> (json option \<times> json) list)" where
  "index_test_items [] s = Inr s"
| "index_test_items (item # items) s =
     (if item = JNull then Inl TypeError
      else if truthy_opt (get_prop item ''name'') \<and> truthy_opt (get_prop item ''steps'') then
        index_test_items items
          (map_set (fst s) (get_prop item ''name'') item,
           if truthy_opt (get_prop item ''id'') then map_set (snd s) (get_prop item ''id'') item
           else snd s)
      else index_test_items items s)"

function indexTestCases ::
  "json list \<Rightarrow> (json option \<times> json) list \<times> (json option \<times> json) list \<Rightarrow>
   error + ((json option \<times> json) list \<times> (json option \<times> json) list)" where
  "indexTestCases [] s = Inr s"
| "indexTestCases (collection # rest) s =
     (if collection = JNull then Inl TypeError
      else
        (case list_prop collection ''items'' of
           Inl e \<Rightarrow> Inl e
         | Inr items \<Rightarrow>
        (case index_test_items items s of
           Inl e \<Rightarrow> Inl e
         | Inr s1 \<Rightarrow>
        (case list_prop collection ''children'' of
           Inl e \<Rightarrow> Inl e
         | Inr children \<Rightarrow>
        (case indexTestCases children s1 of
           Inl e \<Rightarrow> Inl e
         | Inr s2 \<Rightarrow> indexTestCases rest s2)))))"
  by pat_completeness auto
termination
  by (relation "measure (\<lambda>(cs, s). size_list size cs)") (auto dest: list_prop_size)

text \<open>\<^verbatim>\<open>findPathForItem(searchItem)\<close>: the first path under which this very item is stored.\<close>

definition findPathForItem :: "(string \<times> nat) list \<Rightarrow> nat \<Rightarrow> string" where
  "findPathForItem byPath a =
     (case List.find (\<lambda>e. snd e = a) byPath of Some e \<Rightarrow> fst e | None \<Rightarrow> ''Unknown'')"

text \<open>The body of \<^verbatim>\<open>if (item.name && item.api)\<close> in \<^verbatim>\<open>indexApiCollection\<close>.\<close>

definition index_api_item :: "json \<Rightarrow> json option \<Rightarrow> converter \<Rightarrow> converter" where
  "index_api_item item currentPath c =
     (let a = length (apiItems c);
          fullPath = js_String_opt currentPath @ ''/'' @ js_String_opt (get_prop item ''name'');
          byPath = set_prop fullPath a (apiByPath c);
          entry = (case map_get (apiDefinitions c) (get_prop item ''name'') of
                     Some (Multi es) \<Rightarrow> Multi (es @ [(a, fullPath)])
                   | Some (Single a0) \<Rightarrow> Multi [(a0, findPathForItem byPath a0), (a, fullPath)]
                   | None \<Rightarrow> Single a)
      in c\<lparr>apiItems := apiItems c @ [item],
            apiByPath := byPath,
            apiDefinitions := map_set (apiDefinitions c) (get_prop item ''name'') entry\<rparr>)"

text \<open>
  \<^verbatim>\<open>indexApiCollection(collections, parentPath = '')\<close>, with the loop over
  \<^verbatim>\<open>collection.items\<close> as a function of its own.
\<close>

function indexApiCollection :: "json list \<Rightarrow> json option \<Rightarrow> converter \<Rightarrow> error + converter"
  and index_api_items :: "json list \<Rightarrow> json option \<Rightarrow> converter \<Rightarrow> error + converter"
where
  "indexApiCollection [] parentPath c = Inr c"
| "indexApiCollection (collection # rest) parentPath c =
     (if collection = JNull then Inl TypeError
      else
        (case list_prop collection ''items'' of
           Inl e \<Rightarrow> Inl e
         | Inr items \<Rightarrow>
        (case index_api_items items
                (if truthy_opt parentPath
                 then Some (JStr (js_String_opt parentPath @ ''/'' @
                                  js_String_opt (get_prop collection ''name'')))
                 else get_prop collection ''name'') c of
           Inl e \<Rightarrow> Inl e
         | Inr c1 \<Rightarrow>
        (case list_prop collection ''children'' of
           Inl e \<Rightarrow> Inl e
         | Inr children \<Rightarrow>
        (case indexApiCollection children
                (if truthy_opt parentPath
                 then Some (JStr (js_String_opt parentPath @ ''/'' @
                                  js_String_opt (get_prop collection ''name'')))
                 else get_prop collection ''name'') c1 of
           Inl e \<Rightarrow> Inl e
         | Inr c2 \<Rightarrow> indexApiCollection rest parentPath c2)))))"
| "index_api_items [] currentPath c = Inr c"
| "index_api_items (item # items) currentPath c =
     (if item = JNull then Inl TypeError
      else if truthy_opt (get_prop item ''name'') \<and> truthy_opt (get_prop item ''api'') then
        index_api_items items currentPath (index_api_item item currentPath c)
      else if truthy_opt (get_prop item ''items'') then
        (case indexApiCollection [item] currentPath c of
           Inl e \<Rightarrow> Inl e
         | Inr c1 \<Rightarrow> index_api_items items currentPath c1)
      else index_api_items items currentPath c)"
  by pat_completeness auto
termination
  by (relation "measure (\<lambda>x. case x of
           Inl (cs, p, c) \<Rightarrow> 2 * size_list size cs + 1
         | Inr (items, p, c) \<Rightarrow> 2 * size_list size items + 2)")
     (auto dest: list_prop_size)

text \<open>
  \<^verbatim>\<open>loadSourceApidog(filePath)\<close>. The file system is the function \<open>files\<close> from a path
  to the parsed content of the file there; \<open>None\<close> stands for a file that is missing
  or does not parse, where the script throws.
\<close>

definition loadSourceApidog :: "(string \<Rightarrow> json option) \<Rightarrow> json \<Rightarrow> converter \<Rightarrow> error + converter" where
  "loadSourceApidog files filePath c =
     (case (case filePath of JStr p \<Rightarrow> files p | _ \<Rightarrow> None) of
        None \<Rightarrow> Inl (Error ''Source Apidog file not found'')
      | Some source \<Rightarrow>
          if source = JNull then Inl TypeError
          else
            (case list_prop source ''apiCollection'' of
               Inl e \<Rightarrow> Inl e
             | Inr apiCollection \<Rightarrow>
            (case indexApiCollection apiCollection (Some (JStr '''')) c of
               Inl e \<Rightarrow> Inl e
             | Inr c1 \<Rightarrow>
            (case list_prop source ''apiTestCaseCollection'' of
               Inl e \<Rightarrow> Inl e
             | Inr collections \<Rightarrow>
            (case indexTestCases collections ([], []) of
               Inl e \<Rightarrow> Inl e
             | Inr s \<Rightarrow> Inr (c1\<lparr>testCases := Some (fst s), testCasesById := Some (snd s)\<rparr>))))))"

subsection \<open>Looking up an endpoint definition\<close>

text \<open>The \<^verbatim>\<open>api\<close> object of a stored item.\<close>

definition api_of :: "converter \<Rightarrow> nat \<Rightarrow> json" where
  "api_of c a = js_or (get_prop (apiItems c ! a) ''api'') JNull"

text \<open>
  \<^verbatim>\<open>findApiByMethodAndPath(method, apiPath)\<close>; the caller passes a truthy path.
  \<^verbatim>\<open>desiredMethod\<close> is \<^verbatim>\<open>String(method).toLowerCase()\<close> for a truthy method, and the method
  is compared only when that string is not empty.
\<close>

definition desired_method :: "json \<Rightarrow> string" where
  "desired_method method = (if truthy method then toLowerCase (js_String method) else [])"

definition findApiByMethodAndPath :: "converter \<Rightarrow> json \<Rightarrow> json \<Rightarrow> nat option" where
  "findApiByMethodAndPath c method apiPath =
     map_option snd
       (List.find
          (\<lambda>e. truthy (api_of c (snd e)) \<and>
                same_value (get_prop (api_of c (snd e)) ''path'') (Some apiPath) \<and>
                (desired_method method \<noteq> [] \<longrightarrow>
                   toLowerCase (js_String (js_or (get_prop (api_of c (snd e)) ''method'') (JStr '''')))
                   = desired_method method))
          (apiByPath c))"

text \<open>\<^verbatim>\<open>findApiByName(name, folderPath)\<close>\<close>

definition first_of_entry :: "api_entry \<Rightarrow> nat option" where
  "first_of_entry e = (case e of Single a \<Rightarrow> Some a | Multi es \<Rightarrow> map_option fst (List.find (\<lambda>x. True) es))"

definition findApiByName :: "converter \<Rightarrow> json \<Rightarrow> json \<Rightarrow> nat option" where
  "findApiByName c name folderPath =
     (let byName = (case map_get (apiDefinitions c) (Some name) of
                      None \<Rightarrow> None | Some e \<Rightarrow> first_of_entry e)
      in if truthy folderPath then
           (case map_of (apiByPath c) (js_String folderPath @ ''/'' @ js_String name) of
              Some a \<Rightarrow> Some a
            | None \<Rightarrow>
                (case List.find
                        (\<lambda>e. endsWith (fst e) (''/'' @ js_String folderPath @ ''/'' @ js_String name))
                        (apiByPath c) of
                   Some e \<Rightarrow> Some (snd e)
                 | None \<Rightarrow> byName))
         else byName)"

text \<open>\<^verbatim>\<open>findApiByNameAndPath(name, expectedPath, folderPath = null)\<close>\<close>

definition by_name_and_path :: "converter \<Rightarrow> json \<Rightarrow> json \<Rightarrow> nat option" where
  "by_name_and_path c name expectedPath =
     (case map_get (apiDefinitions c) (Some name) of
        None \<Rightarrow> None
      | Some (Single a) \<Rightarrow> Some a
      | Some (Multi es) \<Rightarrow>
          (case (if truthy expectedPath
                 then List.find
                        (\<lambda>e. truthy (api_of c (fst e)) \<and>
                              same_value (get_prop (api_of c (fst e)) ''path'') (Some expectedPath)) es
                 else None) of
             Some e \<Rightarrow> Some (fst e)
           | None \<Rightarrow> first_of_entry (Multi es)))"

definition findApiByNameAndPath :: "converter \<Rightarrow> json \<Rightarrow> json \<Rightarrow> json \<Rightarrow> nat option" where
  "findApiByNameAndPath c name expectedPath folderPath =
     (case (if truthy folderPath then findApiByName c name folderPath else None) of
        Some a \<Rightarrow>
          if truthy (api_of c a) then
            (if truthy expectedPath \<and>
                \<not> same_value (get_prop (api_of c a) ''path'') (Some expectedPath)
             then by_name_and_path c name expectedPath
             else Some a)
          else by_name_and_path c name expectedPath
      | None \<Rightarrow> by_name_and_path c name expectedPath)"

subsection \<open>Processors\<close>

text \<open>
  \<^verbatim>\<open>processor.default_enable !== undefined ? processor.default_enable :
  (processor.defaultEnable !== undefined ? processor.defaultEnable : false)\<close> and
  \<^verbatim>\<open>processor.enable !== undefined ? processor.enable : true\<close>
\<close>

definition defined_or :: "json option \<Rightarrow> json \<Rightarrow> json" where
  "defined_or v d = (case v of Some x \<Rightarrow> x | None \<Rightarrow> d)"

definition default_enable_of :: "json \<Rightarrow> json" where
  "default_enable_of p =
     defined_or (get_prop p ''default_enable'') (defined_or (get_prop p ''defaultEnable'') (JBool False))"

definition enable_of :: "json \<Rightarrow> json" where
  "enable_of p = defined_or (get_prop p ''enable'') (JBool True)"

text \<open>The script text of a \<^verbatim>\<open>customScript\<close> processor, before the line endings are set.\<close>

definition script_data :: "json option \<Rightarrow> string" where
  "script_data v =
     (case v of
        None \<Rightarrow> ''''
      | Some JNull \<Rightarrow> ''''
      | Some j \<Rightarrow> js_String j)"

text \<open>\<^verbatim>\<open>convertAssertions(assertions)\<close>\<close>

definition convert_assertion :: "json \<Rightarrow> json" where
  "convert_assertion assertion =
     JObj [(''type'', JStr ''assertion''),
           (''data'', JObj
              [(''name'', js_or (get_prop assertion ''name'') (JStr '''')),
               (''subject'', js_or (get_prop assertion ''subject'') (JStr ''responseJson'')),
               (''comparison'', js_or (get_prop assertion ''comparison'')
                                  (js_or (get_prop assertion ''operator'') (JStr ''equal''))),
               (''value'', js_or (get_prop assertion ''value'') (JStr '''')),
               (''path'', js_or (get_prop assertion ''path'') (JStr '''')),
               (''multipleValue'', JArr []),
               (''extractSettings'', JObj
                  [(''expression'', js_or (get_prop assertion ''path'') (JStr '''')),
                   (''continueExtractorSettings'', JObj
                      [(''isContinueExtractValue'', JBool False),
                       (''JsonArrayValueIndexValue'', JStr '''')])])]),
           (''defaultEnable'', JBool False),
           (''enable'', JBool True)]"

fun convertAssertions :: "json list \<Rightarrow> error + json list" where
  "convertAssertions [] = Inr []"
| "convertAssertions (assertion # rest) =
     (if assertion = JNull then Inl TypeError
      else (case convertAssertions rest of
              Inl e \<Rightarrow> Inl e
            | Inr ps \<Rightarrow> Inr (convert_assertion assertion # ps)))"

text \<open>
  \<^verbatim>\<open>for (const key in processor) if (!['type', 'data', 'defaultEnable', 'default_enable',
  'enable'].includes(key)) converted[key] = processor[key]\<close>. The new properties come
  after the four that \<^verbatim>\<open>converted\<close> starts with, except for a key that is an integer
  index (JavaScript lists those first) and for the key \<^verbatim>\<open>__proto__\<close> (the assignment
  sets the prototype): a processor with such an additional key is left out of the model.
\<close>

definition is_index_key :: "string \<Rightarrow> bool" where
  "is_index_key k \<longleftrightarrow>
     k \<noteq> [] \<and> list_all (\<lambda>ch. digit_val ch \<noteq> None) k \<and> (k = ''0'' \<or> hd k \<noteq> CHR ''0'')"

definition additional_keys :: "(string \<times> json) list \<Rightarrow> string list" where
  "additional_keys processor =
     filter (\<lambda>k. k \<notin> set [''type'', ''data'', ''defaultEnable'', ''default_enable'', ''enable''])
       (map fst processor)"

definition copy_additional ::
  "(string \<times> json) list \<Rightarrow> (string \<times> json) list \<Rightarrow> error + (string \<times> json) list" where
  "copy_additional processor converted =
     (if list_all (\<lambda>k. \<not> is_index_key k \<and> k \<noteq> ''__proto__'') (additional_keys processor)
      then Inr (foldl (\<lambda>acc kv. if fst kv \<in> set (additional_keys processor)
                                 then set_prop (fst kv) (snd kv) acc else acc)
                  converted processor)
      else Inl Unsupported)"

definition convert_other_processor :: "json \<Rightarrow> error + json" where
  "convert_other_processor processor =
     (case processor of
        JStr s \<Rightarrow> Inl Unsupported
      | JArr xs \<Rightarrow> Inl Unsupported
      | _ \<Rightarrow>
          (case copy_additional (case processor of JObj kvs \<Rightarrow> kvs | _ \<Rightarrow> [])
                  [(''type'', js_or (get_prop processor ''type'') (JStr ''unknown'')),
                   (''data'', js_or (get_prop processor ''data'') (JObj [])),
                   (''defaultEnable'', default_enable_of processor),
                   (''enable'', enable_of processor)] of
             Inl e \<Rightarrow> Inl e
           | Inr converted \<Rightarrow> Inr (JObj converted)))"

definition convert_script_processor :: "json \<Rightarrow> json" where
  "convert_script_processor processor =
     JObj [(''type'', JStr ''customScript''),
           (''data'', JStr (to_crlf (script_data (get_prop processor ''data'')))),
           (''defaultEnable'', default_enable_of processor),
           (''enable'', enable_of processor)]"

text \<open>\<^verbatim>\<open>convertPreProcessors(preProcessors)\<close>\<close>

definition convert_pre_processor :: "json \<Rightarrow> error + json" where
  "convert_pre_processor processor =
     (if processor = JNull then Inl TypeError
      else if get_prop processor ''type'' = Some (JStr ''customScript'')
      then Inr (convert_script_processor processor)
      else convert_other_processor processor)"

fun map_result :: "('a \<Rightarrow> error + 'b) \<Rightarrow> 'a list \<Rightarrow> error + 'b list" where
  "map_result f [] = Inr []"
| "map_result f (x # xs) =
     (case f x of
        Inl e \<Rightarrow> Inl e
      | Inr y \<Rightarrow> (case map_result f xs of Inl e \<Rightarrow> Inl e | Inr ys \<Rightarrow> Inr (y # ys)))"

definition convertPreProcessors :: "json \<Rightarrow> error + json list" where
  "convertPreProcessors preProcessors =
     (case preProcessors of
        JArr [] \<Rightarrow>
          Inr [JObj [(''type'', JStr ''placeholder''), (''renderType'', JStr ''dynamicValueDivider''),
                     (''defaultEnable'', JBool False), (''enable'', JBool False)]]
      | JArr ps \<Rightarrow> map_result convert_pre_processor ps
      | _ \<Rightarrow> Inl Unsupported)"

text \<open>\<^verbatim>\<open>convertPostProcessors(postProcessors)\<close>\<close>

definition convert_assertion_processor :: "json \<Rightarrow> json" where
  "convert_assertion_processor processor =
     (let assertionData = js_or (get_prop processor ''data'') (JObj []) in
        JObj [(''type'', JStr ''assertion''),
              (''data'', JObj
                 [(''name'', js_or (get_prop assertionData ''name'') (JStr '''')),
                  (''subject'', js_or (get_prop assertionData ''subject'') (JStr ''responseJson'')),
                  (''comparison'', js_or (get_prop assertionData ''comparison'')
                                     (js_or (get_prop assertionData ''operator'') (JStr ''equal''))),
                  (''value'', js_or (get_prop assertionData ''value'') (JStr '''')),
                  (''path'', js_or (get_prop assertionData ''path'') (JStr '''')),
                  (''multipleValue'', js_or (get_prop assertionData ''multipleValue'') (JArr [])),
                  (''extractSettings'', js_or (get_prop assertionData ''extractSettings'')
                     (JObj [(''expression'', js_or (get_prop assertionData ''path'') (JStr '''')),
                            (''continueExtractorSettings'', JObj
                               [(''isContinueExtractValue'', JBool False),
                                (''JsonArrayValueIndexValue'', JStr '''')])]))]),
              (''defaultEnable'', default_enable_of processor),
              (''enable'', enable_of processor)])"

definition convert_post_processor :: "json \<Rightarrow> error + json" where
  "convert_post_processor processor =
     (if processor = JNull then Inl TypeError
      else if get_prop processor ''type'' = Some (JStr ''assertion'')
      then Inr (convert_assertion_processor processor)
      else if get_prop processor ''type'' = Some (JStr ''customScript'')
      then Inr (convert_script_processor processor)
      else convert_other_processor processor)"

definition convertPostProcessors :: "json \<Rightarrow> error + json list" where
  "convertPostProcessors postProcessors =
     (case postProcessors of
        JArr ps \<Rightarrow> map_result convert_post_processor ps
      | _ \<Rightarrow> Inl Unsupported)"

text \<open>\<^verbatim>\<open>mergePostProcessors(assertions, customPostProcessors)\<close>: assertions first.\<close>

definition mergePostProcessors :: "json \<Rightarrow> json \<Rightarrow> error + json list" where
  "mergePostProcessors assertions customPostProcessors =
     (case (case assertions of JArr as \<Rightarrow> convertAssertions as | _ \<Rightarrow> Inl Unsupported) of
        Inl e \<Rightarrow> Inl e
      | Inr first \<Rightarrow>
          (case convertPostProcessors customPostProcessors of
             Inl e \<Rightarrow> Inl e
           | Inr second \<Rightarrow> Inr (first @ second)))"

text \<open>
  The two processor lists of an http step:
  \<^verbatim>\<open>convertPreProcessors(step.pre_processors || step.preProcessors || [])\<close> and
  \<^verbatim>\<open>mergePostProcessors(step.assertions || [], step.post_processors ||
  step.postProcessors || [])\<close>
\<close>

definition step_pre_processors :: "json \<Rightarrow> error + json list" where
  "step_pre_processors step =
     convertPreProcessors
       (js_or (get_prop step ''pre_processors'') (js_or (get_prop step ''preProcessors'') (JArr [])))"

definition step_post_processors :: "json \<Rightarrow> error + json list" where
  "step_post_processors step =
     mergePostProcessors (js_or (get_prop step ''assertions'') (JArr []))
       (js_or (get_prop step ''post_processors'') (js_or (get_prop step ''postProcessors'') (JArr [])))"

subsection \<open>Parameter overrides\<close>

text \<open>
  The override loops of \<^verbatim>\<open>convertHttpStep\<close>, \<^verbatim>\<open>createBasicHttpStep\<close> and
  \<^verbatim>\<open>convertLinkedSteps\<close> are the same loop up to two things, which are parameters
  here: header names are matched after \<^verbatim>\<open>toLowerCase()\<close> on both sides
  (\<^verbatim>\<open>p.name && p.name.toLowerCase() === paramName.toLowerCase()\<close>), all others by
  \<^verbatim>\<open>p.name === paramName\<close>; and a new cookie parameter has the extra property
  \<^verbatim>\<open>isDelete: false\<close>.
\<close>

datatype match_mode = ExactName | HeaderName

definition name_matches :: "match_mode \<Rightarrow> json option \<Rightarrow> json \<Rightarrow> error + bool" where
  "name_matches mode paramName p =
     (case mode of
        ExactName \<Rightarrow> Inr (same_value (get_prop p ''name'') paramName)
      | HeaderName \<Rightarrow>
          if \<not> truthy_opt (get_prop p ''name'') then Inr False
          else (case get_prop p ''name'' of
                  Some (JStr a) \<Rightarrow>
                    (case paramName of
                       Some (JStr b) \<Rightarrow> Inr (toLowerCase a = toLowerCase b)
                     | _ \<Rightarrow> Inl TypeError)
                | _ \<Rightarrow> Inl TypeError))"

text \<open>\<^verbatim>\<open>findIndex\<close>/\<^verbatim>\<open>find\<close> with that test; the scan stops at the first match.\<close>

fun find_param :: "match_mode \<Rightarrow> json option \<Rightarrow> json list \<Rightarrow> error + nat option" where
  "find_param mode paramName [] = Inr None"
| "find_param mode paramName (p # ps) =
     (if p = JNull then Inl TypeError
      else (case name_matches mode paramName p of
              Inl e \<Rightarrow> Inl e
            | Inr True \<Rightarrow> Inr (Some 0)
            | Inr False \<Rightarrow>
                (case find_param mode paramName ps of
                   Inl e \<Rightarrow> Inl e
                 | Inr None \<Rightarrow> Inr None
                 | Inr (Some i) \<Rightarrow> Inr (Some (Suc i)))))"

definition new_param :: "bool \<Rightarrow> int \<Rightarrow> json option \<Rightarrow> json \<Rightarrow> json" where
  "new_param cookie n paramName paramValue =
     obj ([(''id'', Some (JStr (''custom_'' @ string_of_int n))),
           (''name'', paramName),
           (''required'', Some (JBool False)),
           (''enable'', Some (JBool True)),
           (''value'', Some paramValue),
           (''type'', Some (JStr ''string'')),
           (''description'', Some (JStr ''''))]
          @ (if cookie then [(''isDelete'', Some (JBool False))] else []))"

text \<open>
  Assigning properties of the parameter that was found: it is an object, or else a
  primitive (a \<^verbatim>\<open>TypeError\<close> in strict code) or an array (left out of the model).
\<close>

definition update_found :: "json list \<Rightarrow> nat \<Rightarrow> (string \<times> json) list \<Rightarrow> error + json list" where
  "update_found params i assignments =
     (case params ! i of
        JObj kvs \<Rightarrow> Inr (params[i := JObj (foldl (\<lambda>acc kv. set_prop (fst kv) (snd kv) acc) kvs assignments)])
      | JArr xs \<Rightarrow> Inl Unsupported
      | _ \<Rightarrow> Inl TypeError)"

text \<open>
  One round of an override loop. A value that is null or undefined removes the first
  parameter of that name, if there is one (\<^verbatim>\<open>findIndex\<close> and \<^verbatim>\<open>splice\<close>). Any other
  value is written to the parameter that \<^verbatim>\<open>find\<close> returns; \<^verbatim>\<open>if (existingParam)\<close> takes a
  falsy element that was found (0, false or the empty string, whose \<^verbatim>\<open>name\<close> is
  undefined like that of an override without a name) as not found.
\<close>

definition apply_override ::
  "match_mode \<Rightarrow> bool \<Rightarrow> json \<Rightarrow> json list \<times> converter \<Rightarrow> error + (json list \<times> converter)" where
  "apply_override mode cookie override s =
     (if override = JNull then Inl TypeError
      else
        (case find_param mode (get_prop override ''name'') (fst s) of
           Inl e \<Rightarrow> Inl e
         | Inr found \<Rightarrow>
             if get_prop override ''value'' = None \<or> get_prop override ''value'' = Some JNull then
               (case found of
                  Some i \<Rightarrow> Inr (take i (fst s) @ drop (Suc i) (fst s), snd s)
                | None \<Rightarrow> Inr s)
             else
               (case (case found of
                        Some i \<Rightarrow> if truthy (fst s ! i) then Some i else None
                      | None \<Rightarrow> None) of
                  Some i \<Rightarrow>
                    (case update_found (fst s) i
                            [(''value'', the (get_prop override ''value'')), (''enable'', JBool True)] of
                       Inl e \<Rightarrow> Inl e
                     | Inr params \<Rightarrow> Inr (params, snd s))
                | None \<Rightarrow>
                    (case generateId (snd s) of
                       (n, c') \<Rightarrow>
                         Inr (fst s @ [new_param cookie n (get_prop override ''name'')
                                         (the (get_prop override ''value''))], c')))))"

fun fold_result :: "('a \<Rightarrow> 's \<Rightarrow> error + 's) \<Rightarrow> 'a list \<Rightarrow> 's \<Rightarrow> error + 's" where
  "fold_result f [] s = Inr s"
| "fold_result f (x # xs) s = (case f x s of Inl e \<Rightarrow> Inl e | Inr s' \<Rightarrow> fold_result f xs s')"

text \<open>
  \<^verbatim>\<open>if (step.X_params_override && Array.isArray(step.X_params_override)) for (...)\<close>
  on the current value of \<^verbatim>\<open>parameters.X\<close>: with at least one override that value is
  searched, so it has to be an array.
\<close>

definition apply_overrides ::
  "match_mode \<Rightarrow> bool \<Rightarrow> json option \<Rightarrow> json \<Rightarrow> converter \<Rightarrow> error + (json \<times> converter)" where
  "apply_overrides mode cookie overrides params c =
     (case overrides of
        Some (JArr []) \<Rightarrow> Inr (params, c)
      | Some (JArr os) \<Rightarrow>
          (case params of
             JArr ps \<Rightarrow>
               (case fold_result (apply_override mode cookie) os (ps, c) of
                  Inl e \<Rightarrow> Inl e
                | Inr (ps', c') \<Rightarrow> Inr (JArr ps', c'))
           | _ \<Rightarrow> Inl TypeError)
      | _ \<Rightarrow> Inr (params, c))"

text \<open>The step-level \<^verbatim>\<open>user_agent\<close>, on the header parameters.\<close>

definition apply_user_agent :: "json option \<Rightarrow> json \<Rightarrow> converter \<Rightarrow> error + (json \<times> converter)" where
  "apply_user_agent userAgent header c =
     (if truthy_opt userAgent then
        (case header of
           JArr hs \<Rightarrow>
             (case find_param HeaderName (Some (JStr ''user-agent'')) hs of
                Inl e \<Rightarrow> Inl e
              | Inr (Some i) \<Rightarrow>
                  (case update_found hs i [(''value'', the userAgent), (''enable'', JBool True)] of
                     Inl e \<Rightarrow> Inl e
                   | Inr hs' \<Rightarrow> Inr (JArr hs', c))
              | Inr None \<Rightarrow>
                  (case generateId c of
                     (n, c') \<Rightarrow>
                       Inr (JArr (hs @ [new_param False n (Some (JStr ''User-Agent'')) (the userAgent)]),
                            c')))
         | _ \<Rightarrow> Inl TypeError)
      else Inr (header, c))"

text \<open>
  The four parameter lists of an http step, and what both \<^verbatim>\<open>convertHttpStep\<close> and
  \<^verbatim>\<open>createBasicHttpStep\<close> do to them, in this order: the query, path, cookie and
  header overrides, then the user agent.
\<close>

record parameters =
  p_query :: json
  p_header :: json
  p_cookie :: json
  p_path :: json

definition apply_step_overrides :: "json \<Rightarrow> parameters \<Rightarrow> converter \<Rightarrow> error + (parameters \<times> converter)" where
  "apply_step_overrides step ps c =
     (case apply_overrides ExactName False (get_prop step ''query_params_override'') (p_query ps) c of
        Inl e \<Rightarrow> Inl e
      | Inr (query, c1) \<Rightarrow>
     (case apply_overrides ExactName False (get_prop step ''path_params_override'') (p_path ps) c1 of
        Inl e \<Rightarrow> Inl e
      | Inr (path, c2) \<Rightarrow>
     (case apply_overrides ExactName True (get_prop step ''cookie_params_override'') (p_cookie ps) c2 of
        Inl e \<Rightarrow> Inl e
      | Inr (cookie, c3) \<Rightarrow>
     (case apply_overrides HeaderName False (get_prop step ''header_params_override'') (p_header ps) c3 of
        Inl e \<Rightarrow> Inl e
      | Inr (header, c4) \<Rightarrow>
     (case apply_user_agent (get_prop step ''user_agent'') header c4 of
        Inl e \<Rightarrow> Inl e
      | Inr (header', c5) \<Rightarrow>
          Inr (\<lparr>p_query = query, p_header = header', p_cookie = cookie, p_path = path\<rparr>, c5))))))"

definition parameters_json :: "parameters \<Rightarrow> json" where
  "parameters_json ps =
     JObj [(''query'', p_query ps), (''header'', p_header ps), (''cookie'', p_cookie ps),
           (''path'', p_path ps)]"

subsection \<open>The request body\<close>

text \<open>
  One round of the loop over \<^verbatim>\<open>step.request_form_data_override\<close>: an existing
  parameter of that name is updated in place (a falsy element that \<^verbatim>\<open>find\<close> returns
  counts as none); a new one is collected and pushed after the loop, so it is not seen
  by the rounds that follow.
\<close>

definition new_form_param :: "int \<Rightarrow> json \<Rightarrow> json" where
  "new_form_param n formField =
     obj [(''id'', Some (JStr (''custom_'' @ string_of_int n))),
          (''name'', get_prop formField ''name''),
          (''required'', Some (JBool False)),
          (''enable'', Some (defined_or (get_prop formField ''enable'') (JBool True))),
          (''value'', Some (js_or (get_prop formField ''value'') (JStr ''''))),
          (''type'', Some (js_or (get_prop formField ''type'') (JStr ''string''))),
          (''description'', Some (js_or (get_prop formField ''description'') (JStr ''''))),
          (''schema'', Some (JObj
             ([(''type'', JStr ''string'')]
              @ (if js_or (get_prop formField ''type'') (JStr ''string'') = JStr ''file''
                 then [(''format'', JStr ''binary'')] else [])
              @ [(''description'', js_or (get_prop formField ''description'') (JStr ''''))])))]"

definition apply_form_field ::
  "json \<Rightarrow> json list \<times> json list \<times> converter \<Rightarrow> error + (json list \<times> json list \<times> converter)" where
  "apply_form_field formField s =
     (case s of (params, added, c) \<Rightarrow>
        if formField = JNull then Inl TypeError
        else
          (case find_param ExactName (get_prop formField ''name'') params of
             Inl e \<Rightarrow> Inl e
           | Inr found \<Rightarrow>
               (case (case found of
                        Some i \<Rightarrow> if truthy (params ! i) then Some i else None
                      | None \<Rightarrow> None) of
                  Some i \<Rightarrow>
                    (case update_found params i
                            [(''value'', js_or (get_prop formField ''value'') (JStr '''')),
                             (''enable'', defined_or (get_prop formField ''enable'') (JBool True)),
                             (''type'', js_or (get_prop formField ''type'') (JStr ''string''))] of
                       Inl e \<Rightarrow> Inl e
                     | Inr params' \<Rightarrow> Inr (params', added, c))
                | None \<Rightarrow>
                    (case generateId c of
                       (n, c') \<Rightarrow> Inr (params, added @ [new_form_param n formField], c')))))"

text \<open>
  The whole loop on the current value of \<^verbatim>\<open>requestBody.parameters\<close>, which has to be an
  array once there is a form field.
\<close>

definition apply_form_data :: "json list \<Rightarrow> json \<Rightarrow> converter \<Rightarrow> error + (json \<times> converter)" where
  "apply_form_data formFields params c =
     (if formFields = [] then Inr (params, c)
      else
        (case params of
           JArr ps \<Rightarrow>
             (case fold_result apply_form_field formFields (ps, [], c) of
                Inl e \<Rightarrow> Inl e
              | Inr (ps', added, c') \<Rightarrow> Inr (JArr (ps' @ added), c'))
         | _ \<Rightarrow> Inl TypeError))"

text \<open>
  \<^verbatim>\<open>if (step.request_body_override && step.request_body_override.data)\<close>: the trimmed
  data and the type that replace those of the request body, if any.
\<close>

definition body_override :: "json \<Rightarrow> error + (json \<times> json) option" where
  "body_override step =
     (let bo = js_or (get_prop step ''request_body_override'') JNull in
        if truthy bo \<and> truthy_opt (get_prop bo ''data'') then
          (case get_prop bo ''data'' of
             Some (JStr d) \<Rightarrow>
               Inr (Some (JStr (trim d), js_or (get_prop bo ''type'') (JStr ''application/json'')))
           | _ \<Rightarrow> Inl TypeError)
        else Inr None)"

definition form_fields :: "json \<Rightarrow> json list option" where
  "form_fields step =
     (case get_prop step ''request_form_data_override'' of Some (JArr fs) \<Rightarrow> Some fs | _ \<Rightarrow> None)"

subsection \<open>Http steps\<close>

text \<open>
  A converted step may hold the \<^verbatim>\<open>requestBody.parameters\<close> array of the endpoint
  definition itself (\<^verbatim>\<open>parameters: api.requestBody.parameters || []\<close> copies the
  reference), which later steps of the same run can still change. So a converted step
  is a function of the final store of API items, applied when the test case is written
  out.
\<close>

type_synonym late = "json list \<Rightarrow> json"

definition step_number :: "json \<Rightarrow> json" where
  "step_number step = js_or (get_prop step ''number'') (JNum 1)"

definition step_name :: "json \<Rightarrow> json" where
  "step_name step = js_or (get_prop step ''name'') (JStr (''Step '' @ js_String (step_number step)))"

text \<open>
  \<^verbatim>\<open>step.disable_response_validation !== undefined ? step.disable_response_validation :
  (step.response_validation === false)\<close>, as the condition it is used for.
\<close>

definition disable_validation :: "json \<Rightarrow> bool" where
  "disable_validation step =
     truthy (defined_or (get_prop step ''disable_response_validation'')
               (JBool (get_prop step ''response_validation'' = Some (JBool False))))"

text \<open>The lookup at the head of \<^verbatim>\<open>convertHttpStep\<close>: by path and method, then by name.\<close>

definition resolve_api :: "converter \<Rightarrow> json \<Rightarrow> nat option" where
  "resolve_api c step =
     (case (if truthy_opt (get_prop step ''path'')
            then findApiByMethodAndPath c (js_or (get_prop step ''method'') JNull)
                   (js_or (get_prop step ''path'') JNull)
            else None) of
        Some a \<Rightarrow> Some a
      | None \<Rightarrow>
          findApiByNameAndPath c (step_name step) (js_or (get_prop step ''path'') JNull)
            (js_or (get_prop step ''folder'') JNull))"

text \<open>
  \<^verbatim>\<open>disableResponseValidation ? 0 : (api.responses && api.responses.length > 0 ?
  parseInt(api.responses[0].id) : this.generateId())\<close>
\<close>

definition response_id :: "json \<Rightarrow> json \<Rightarrow> converter \<Rightarrow> error + (json \<times> converter)" where
  "response_id step api c =
     (if disable_validation step then Inr (JNum 0, c)
      else
        (case list_prop api ''responses'' of
           Inl e \<Rightarrow> Inl e
         | Inr [] \<Rightarrow> (case generateId c of (n, c') \<Rightarrow> Inr (JNum n, c'))
         | Inr (r # rs) \<Rightarrow>
             if r = JNull then Inl TypeError
             else Inr (num_json (parseInt (get_prop r ''id'')), c)))"

text \<open>\<^verbatim>\<open>JSON.parse(JSON.stringify(api.parameters?.X || []))\<close>: a copy of the declared list.\<close>

definition declared :: "json \<Rightarrow> string \<Rightarrow> json" where
  "declared api k =
     js_or (case get_prop api ''parameters'' of
              None \<Rightarrow> None
            | Some ps \<Rightarrow> if ps = JNull then None else get_prop ps k)
       (JArr [])"

definition declared_parameters :: "json \<Rightarrow> parameters" where
  "declared_parameters api =
     \<lparr>p_query = declared api ''query'', p_header = declared api ''header'',
      p_cookie = declared api ''cookie'', p_path = declared api ''path''\<rparr>"

text \<open>\<^verbatim>\<open>step.auth\<close>, when truthy, replaces the auth of the definition.\<close>

definition step_auth :: "json \<Rightarrow> json \<Rightarrow> json" where
  "step_auth step auth =
     (if truthy_opt (get_prop step ''auth'') then
        (if get_prop (the (get_prop step ''auth'')) ''type'' = Some (JStr ''bearer'') then
           JObj [(''type'', JStr ''bearer''),
                 (''bearer'', JObj [(''token'',
                    js_or (get_prop (the (get_prop step ''auth'')) ''token'') (JStr ''''))])]
         else the (get_prop step ''auth''))
      else auth)"

definition common_parameters :: json where
  "common_parameters =
     JObj [(''query'', JArr []), (''body'', JArr []), (''header'', JArr []), (''cookie'', JArr [])]"

definition step_wrapper :: "json \<Rightarrow> json \<Rightarrow> json \<Rightarrow> json" where
  "step_wrapper step bindId httpApiCase =
     JObj [(''name'', step_name step), (''number'', step_number step), (''type'', JStr ''http''),
           (''bind'', JBool False), (''disable'', JBool False), (''bindType'', JStr ''API''),
           (''bindId'', bindId), (''syncMode'', JStr ''MANUAL''), (''httpApiCase'', httpApiCase)]"

text \<open>
  The request body that \<^verbatim>\<open>convertHttpStep\<close> starts from: its \<^verbatim>\<open>type\<close>, \<^verbatim>\<open>data\<close> and
  optional \<^verbatim>\<open>jsonSchema\<close>; whether its \<^verbatim>\<open>parameters\<close> is the array of the definition
  (\<open>shares_params\<close>); and the current value of that array in a store.
\<close>

definition body_of :: "json \<Rightarrow> json" where
  "body_of api = js_or (get_prop api ''requestBody'') JNull"

definition shares_params :: "json \<Rightarrow> bool" where
  "shares_params api \<longleftrightarrow> truthy (body_of api) \<and> truthy_opt (get_prop (body_of api) ''parameters'')"

definition body_type :: "json \<Rightarrow> json" where
  "body_type api =
     (if truthy (body_of api) then js_or (get_prop (body_of api) ''type'') (JStr ''none'')
      else JStr ''none'')"

definition body_data :: "json \<Rightarrow> json" where
  "body_data api =
     (if truthy (body_of api) then js_or (get_prop (body_of api) ''data'') (JStr '''')
      else JStr '''')"

definition body_schema :: "json \<Rightarrow> json option" where
  "body_schema api =
     (if truthy (body_of api) \<and> truthy_opt (get_prop (body_of api) ''jsonSchema'')
         \<and> body_type api = JStr ''application/json''
      then get_prop (body_of api) ''jsonSchema'' else None)"

definition shared_params :: "json list \<Rightarrow> nat \<Rightarrow> json" where
  "shared_params store a =
     defined_or (get_path (store ! a) [''api'', ''requestBody'', ''parameters'']) (JArr [])"

text \<open>
  \<^verbatim>\<open>convertHttpStep\<close> for a step that resolved to the stored item \<open>a\<close>. Ids are
  generated in the order of the source: the response id, the id of the case, the new
  form fields, the new query, path, cookie and header parameters, the user agent. With
  form fields, the parameters array gets written; when it is the array of the
  definition, the write goes to the store.
\<close>

definition api_http_step :: "json \<Rightarrow> nat \<Rightarrow> converter \<Rightarrow> error + (late \<times> converter)" where
  "api_http_step step a c =
     (let api = api_of c a in
     (case response_id step api c of
        Inl e \<Rightarrow> Inl e
      | Inr (responseId, c1) \<Rightarrow>
     (case generateId c1 of (caseId, c2) \<Rightarrow>
     (case step_pre_processors step of
        Inl e \<Rightarrow> Inl e
      | Inr preProcessors \<Rightarrow>
     (case step_post_processors step of
        Inl e \<Rightarrow> Inl e
      | Inr postProcessors \<Rightarrow>
     (case body_override step of
        Inl e \<Rightarrow> Inl e
      | Inr bo \<Rightarrow>
     (case apply_form_data (case form_fields step of Some fs \<Rightarrow> fs | None \<Rightarrow> [])
             (if shares_params api then shared_params (apiItems c2) a else JArr []) c2 of
        Inl e \<Rightarrow> Inl e
      | Inr (bodyParams, c3) \<Rightarrow>
     (case apply_step_overrides step (declared_parameters api)
             (if shares_params api \<and> form_fields step \<noteq> None
              then c3\<lparr>apiItems := (apiItems c3)
                        [a := set_path [''api'', ''requestBody'', ''parameters''] bodyParams
                                (apiItems c3 ! a)]\<rparr>
              else c3) of
        Inl e \<Rightarrow> Inl e
      | Inr (ps, c4) \<Rightarrow>
          Inr (\<lambda>store.
                 step_wrapper step
                   (if truthy_opt (get_prop api ''id'') then num_json (parseInt (get_prop api ''id''))
                    else JNum 0)
                   (obj
                     [(''id'', Some (JNum caseId)),
                      (''name'', Some (step_name step)),
                      (''method'', Some (js_or (get_prop api ''method'') (JStr ''get''))),
                      (''path'', Some (js_or (get_prop api ''path'') (JStr ''/''))),
                      (''auth'', Some (step_auth step (js_or (get_prop api ''auth'') (JObj [])))),
                      (''type'', Some (JStr ''http'')),
                      (''options'', Some (JObj [])),
                      (''parameters'', Some (parameters_json ps)),
                      (''responseId'', Some responseId),
                      (''requestBody'', Some (JObj
                         ([(''parameters'',
                             if shares_params api then shared_params store a else bodyParams),
                           (''type'',
                             if form_fields step \<noteq> None then JStr ''multipart/form-data''
                             else (case bo of Some (d, t) \<Rightarrow> t | None \<Rightarrow> body_type api)),
                           (''data'', (case bo of Some (d, t) \<Rightarrow> d | None \<Rightarrow> body_data api))]
                          @ (case body_schema api of Some j \<Rightarrow> [(''jsonSchema'', j)] | None \<Rightarrow> [])
                          @ [(''generateMode'', JStr ''normal'')]))),
                      (''preProcessors'', Some (JArr preProcessors)),
                      (''postProcessors'', Some (JArr postProcessors)),
                      (''advancedSettings'', Some (JObj
                         [(''disabledSystemHeaders'', JObj []), (''isDefaultUrlEncoding'', JNum 1),
                          (''disableUrlEncoding'', JBool False)])),
                      (''commonParameters'', Some common_parameters),
                      (''inheritPreProcessors'', Some (JObj [])),
                      (''inheritPostProcessors'', Some (JObj [])),
                      (''inheritPreProcessorsSnapshot'', Some (JArr [])),
                      (''inheritPostProcessorsSnapshot'', Some (JArr [])),
                      (''moduleId'', Some (JNum 936828)),
                      (''apiId'', if truthy_opt (get_prop api ''id'')
                                  then Some (num_json (parseInt (get_prop api ''id''))) else None)]),
               c4)))))))))"

text \<open>
  \<^verbatim>\<open>createBasicHttpStep(step, parentModuleId)\<close>, for a step whose endpoint was not
  found: only what the step itself says.
\<close>

definition basic_body_data :: "json \<Rightarrow> error + json" where
  "basic_body_data step =
     (let requestBody = js_or (get_prop step ''request_body_override'')
                          (JObj [(''type'', JStr ''none''), (''data'', JStr '''')])
      in if truthy_opt (get_prop requestBody ''data'') then
           (case get_prop requestBody ''data'' of
              Some (JStr d) \<Rightarrow> Inr (JStr (trim d))
            | _ \<Rightarrow> Inl TypeError)
         else Inr (JStr ''''))"

definition basic_body_type :: "json \<Rightarrow> json" where
  "basic_body_type step =
     js_or (get_prop (js_or (get_prop step ''request_body_override'')
                        (JObj [(''type'', JStr ''none''), (''data'', JStr '''')])) ''type'')
       (JStr ''none'')"

definition createBasicHttpStep :: "json \<Rightarrow> converter \<Rightarrow> error + (late \<times> converter)" where
  "createBasicHttpStep step c =
     (case js_or (get_prop step ''method'') (JStr ''get'') of
        JStr method \<Rightarrow>
     (case basic_body_data step of
        Inl e \<Rightarrow> Inl e
      | Inr data0 \<Rightarrow>
     (case (if disable_validation step then (0, c) else generateId c) of (responseId, c1) \<Rightarrow>
     (case generateId c1 of (caseId, c2) \<Rightarrow>
     (case step_pre_processors step of
        Inl e \<Rightarrow> Inl e
      | Inr preProcessors \<Rightarrow>
     (case step_post_processors step of
        Inl e \<Rightarrow> Inl e
      | Inr postProcessors \<Rightarrow>
     (case body_override step of
        Inl e \<Rightarrow> Inl e
      | Inr bo \<Rightarrow>
     (case apply_form_data (case form_fields step of Some fs \<Rightarrow> fs | None \<Rightarrow> []) (JArr []) c2 of
        Inl e \<Rightarrow> Inl e
      | Inr (bodyParams, c3) \<Rightarrow>
     (case apply_step_overrides step
             \<lparr>p_query = JArr [], p_header = JArr [], p_cookie = JArr [], p_path = JArr []\<rparr> c3 of
        Inl e \<Rightarrow> Inl e
      | Inr (ps, c4) \<Rightarrow>
          Inr (\<lambda>store.
                 step_wrapper step (JNum 0)
                   (JObj
                     [(''id'', JNum caseId),
                      (''name'', step_name step),
                      (''method'', JStr (toLowerCase method)),
                      (''path'', js_or (get_prop step ''path'') (JStr ''/'')),
                      (''auth'', JObj []),
                      (''type'', JStr ''http''),
                      (''options'', JObj []),
                      (''parameters'', parameters_json ps),
                      (''responseId'', JNum responseId),
                      (''requestBody'', JObj
                         [(''parameters'', bodyParams),
                          (''type'',
                             if form_fields step \<noteq> None then JStr ''multipart/form-data''
                             else (case bo of Some (d, t) \<Rightarrow> t | None \<Rightarrow> basic_body_type step)),
                          (''data'', (case bo of Some (d, t) \<Rightarrow> d | None \<Rightarrow> data0)),
                          (''generateMode'', JStr ''normal'')]),
                      (''preProcessors'', JArr preProcessors),
                      (''postProcessors'', JArr postProcessors),
                      (''advancedSettings'', JObj
                         [(''disabledSystemHeaders'', JObj []), (''isDefaultUrlEncoding'', JNum 1)]),
                      (''commonParameters'', common_parameters),
                      (''inheritPreProcessors'', JObj []),
                      (''inheritPostProcessors'', JObj []),
                      (''inheritPreProcessorsSnapshot'', JArr []),
                      (''inheritPostProcessorsSnapshot'', JArr []),
                      (''moduleId'', JNum 936828)]),
               c4)))))))))
      | _ \<Rightarrow> Inl TypeError)"

text \<open>\<^verbatim>\<open>convertHttpStep(step)\<close>\<close>

definition convertHttpStep :: "json \<Rightarrow> converter \<Rightarrow> error + (late \<times> converter)" where
  "convertHttpStep step c =
     (if step = JNull then Inl TypeError
      else
        (case resolve_api c step of
           Some a \<Rightarrow> if truthy (api_of c a) then api_http_step step a c
                     else createBasicHttpStep step c
         | None \<Rightarrow> createBasicHttpStep step c))"

subsection \<open>Link steps\<close>

definition array_children :: "json \<Rightarrow> json list" where
  "array_children step = (case get_prop step ''children'' of Some (JArr cs) \<Rightarrow> cs | _ \<Rightarrow> [])"

lemma array_children_size: "size_list size (array_children step) \<le> size step"
  by (cases step)
     (auto simp: array_children_def get_prop_def split: option.splits json.splits dest!: map_of_size)

text \<open>
  \<^verbatim>\<open>findStepByNumber(steps, targetNumber)\<close>: depth first, the step itself before its
  children; \<^verbatim>\<open>step.children\<close> is searched when it is an array.
\<close>

function findStepByNumber :: "json list \<Rightarrow> json \<Rightarrow> error + json option" where
  "findStepByNumber [] targetNumber = Inr None"
| "findStepByNumber (step # steps) targetNumber =
     (if step = JNull then Inl TypeError
      else if same_value (get_prop step ''number'') (Some targetNumber) then Inr (Some step)
      else (case findStepByNumber (array_children step) targetNumber of
              Inl e \<Rightarrow> Inl e
            | Inr (Some found) \<Rightarrow> Inr (Some found)
            | Inr None \<Rightarrow> findStepByNumber steps targetNumber))"
  by pat_completeness auto
termination
proof (relation "measure (\<lambda>(steps, n). size_list size steps)")
  fix step :: json and steps :: "json list" and targetNumber :: json
  show "((array_children step, targetNumber), step # steps, targetNumber)
          \<in> measure (\<lambda>(steps, n). size_list size steps)"
    using array_children_size [of step] by simp
qed simp_all

text \<open>
  The query overrides of a link step on a copied \<^verbatim>\<open>http\<close> step: with at least one
  override, \<^verbatim>\<open>copiedStep.httpApiCase.parameters.query\<close> is searched.
\<close>

definition link_http_overrides :: "json \<Rightarrow> json \<Rightarrow> converter \<Rightarrow> error + (json \<times> converter)" where
  "link_http_overrides step copiedStep c =
     (case get_prop step ''query_params_override'' of
        Some (JArr (override # overrides)) \<Rightarrow>
          (case get_path copiedStep [''httpApiCase'', ''parameters''] of
             None \<Rightarrow> Inl TypeError
           | Some ps \<Rightarrow>
               if ps = JNull then Inl TypeError
               else
                 (case apply_overrides ExactName False (get_prop step ''query_params_override'')
                         (defined_or (get_prop ps ''query'') JNull) c of
                    Inl e \<Rightarrow> Inl e
                  | Inr (query, c') \<Rightarrow>
                      (case ps of
                         JObj kvs \<Rightarrow>
                           Inr (set_path [''httpApiCase'', ''parameters'', ''query''] query copiedStep, c')
                       | _ \<Rightarrow> Inl Unsupported)))
      | _ \<Rightarrow> Inr (copiedStep, c))"

text \<open>
  The same for a copied \<^verbatim>\<open>customHttp\<close> step, whose parameters carry a \<^verbatim>\<open>sampleValue\<close>
  next to the \<^verbatim>\<open>value\<close> and get no generated id.
\<close>

definition custom_override :: "json \<Rightarrow> json list \<Rightarrow> error + json list" where
  "custom_override override params =
     (if override = JNull then Inl TypeError
      else
        (case find_param ExactName (get_prop override ''name'') params of
           Inl e \<Rightarrow> Inl e
         | Inr found \<Rightarrow>
             if get_prop override ''value'' = None \<or> get_prop override ''value'' = Some JNull then
               (case found of
                  Some i \<Rightarrow> Inr (take i params @ drop (Suc i) params)
                | None \<Rightarrow> Inr params)
             else
               (case (case found of
                        Some i \<Rightarrow> if truthy (params ! i) then Some i else None
                      | None \<Rightarrow> None) of
                  Some i \<Rightarrow>
                    update_found params i
                      [(''value'', the (get_prop override ''value'')), (''enable'', JBool True),
                       (''sampleValue'', the (get_prop override ''value''))]
                | None \<Rightarrow>
                    Inr (params @ [obj [(''name'', get_prop override ''name''),
                                        (''value'', get_prop override ''value''),
                                        (''sampleValue'', get_prop override ''value''),
                                        (''enable'', Some (JBool True))]]))))"

definition sync_sample_value :: "json \<Rightarrow> json" where
  "sync_sample_value p =
     (case p of
        JObj kvs \<Rightarrow> (case map_of kvs ''value'' of
                       Some v \<Rightarrow> JObj (set_prop ''sampleValue'' v kvs)
                     | None \<Rightarrow> p)
      | _ \<Rightarrow> p)"

definition link_custom_overrides :: "json \<Rightarrow> json \<Rightarrow> error + json" where
  "link_custom_overrides step copiedStep =
     (case get_prop step ''query_params_override'' of
        Some (JArr overrides) \<Rightarrow>
          (case get_prop copiedStep ''customHttpRequest'' of
             Some (JObj request) \<Rightarrow>
               (case (if truthy_opt (map_of request ''parameters'') then the (map_of request ''parameters'')
                      else JObj [(''query'', JArr []), (''header'', JArr []), (''cookie'', JArr []),
                                 (''path'', JArr [])]) of
                  JObj ps \<Rightarrow>
                    (case fold_result (\<lambda>override params. custom_override override params) overrides
                            (case map_of ps ''query'' of Some (JArr q) \<Rightarrow> q | _ \<Rightarrow> []) of
                       Inl e \<Rightarrow> Inl e
                     | Inr query \<Rightarrow>
                         Inr (set_path [''customHttpRequest'']
                                (JObj (set_prop ''parameters''
                                         (JObj (set_prop ''query'' (JArr (map sync_sample_value query)) ps))
                                         request))
                                copiedStep))
                | JArr xs \<Rightarrow> Inl Unsupported
                | _ \<Rightarrow> Inl TypeError)
           | Some (JArr xs) \<Rightarrow> Inl Unsupported
           | _ \<Rightarrow> Inl TypeError)
      | _ \<Rightarrow> Inr copiedStep)"

text \<open>
  \<^verbatim>\<open>convertLinkedSteps(step)\<close>. \<^verbatim>\<open>JSON.parse(JSON.stringify(x))\<close> of a parsed value is
  the value; the copy is what the overrides are applied to.
\<close>

definition link_step_number :: "json \<Rightarrow> json option" where
  "link_step_number step =
     (if truthy_opt (get_prop step ''link_step'') then get_prop step ''link_step''
      else get_prop step ''link_step_number'')"

definition copy_single_step :: "json \<Rightarrow> json \<Rightarrow> converter \<Rightarrow> error + (json list \<times> converter)" where
  "copy_single_step step linkedStep c =
     (let copiedStep = set_path [''number'']
                         (js_or (get_prop step ''number'') (defined_or (get_prop linkedStep ''number'') JNull))
                         linkedStep
      in
        (case (if get_prop copiedStep ''type'' = Some (JStr ''http'')
                  \<and> truthy_opt (get_prop copiedStep ''httpApiCase'')
               then link_http_overrides step copiedStep c else Inr (copiedStep, c)) of
           Inl e \<Rightarrow> Inl e
         | Inr (copied1, c') \<Rightarrow>
             (case (if get_prop copied1 ''type'' = Some (JStr ''customHttp'')
                       \<and> truthy_opt (get_prop copied1 ''customHttpRequest'')
                    then link_custom_overrides step copied1 else Inr copied1) of
                Inl e \<Rightarrow> Inl e
              | Inr copied2 \<Rightarrow> Inr ([copied2], c'))))"

definition convertLinkedSteps :: "json \<Rightarrow> converter \<Rightarrow> error + (json list \<times> converter)" where
  "convertLinkedSteps step c =
     (if \<not> truthy_opt (get_prop step ''link_to'') then Inr ([], c)
      else
        (case testCases c of
           None \<Rightarrow> Inl TypeError
         | Some index \<Rightarrow>
             (case map_get index (get_prop step ''link_to'') of
                None \<Rightarrow> Inr ([], c)
              | Some testCase \<Rightarrow>
                  if link_step_number step \<noteq> None \<and> link_step_number step \<noteq> Some JNull then
                    (case findStepByNumber
                            (case get_prop testCase ''steps'' of Some (JArr steps) \<Rightarrow> steps | _ \<Rightarrow> [])
                            (the (link_step_number step)) of
                       Inl e \<Rightarrow> Inl e
                     | Inr None \<Rightarrow> Inr ([], c)
                     | Inr (Some linkedStep) \<Rightarrow> copy_single_step step linkedStep c)
                  else
                    (case get_prop testCase ''steps'' of
                       Some (JArr steps) \<Rightarrow> Inr (steps, c)
                     | _ \<Rightarrow> Inl Unsupported))))"

subsection \<open>Reference, delay and script steps\<close>

text \<open>\<^verbatim>\<open>convertTestCaseRefStep(step)\<close>\<close>

definition lookup_ref :: "json \<Rightarrow> converter \<Rightarrow> error + (int option \<times> json)" where
  "lookup_ref step c =
     (let refName = js_or (get_prop step ''ref_name'')
                      (js_or (get_prop step ''refName'') (js_or (get_prop step ''name'') JNull));
          refId = js_or (get_prop step ''ref_id'') (js_or (get_prop step ''refId'') JNull)
      in
        if truthy refId then
          (case testCasesById c of
             None \<Rightarrow> Inl TypeError
           | Some index \<Rightarrow>
               (case map_get index (Some refId) of
                  Some testCase \<Rightarrow>
                    Inr (parseInt (get_prop testCase ''id''),
                         js_or (get_prop testCase ''name'') (step_name step))
                | None \<Rightarrow> Inr (None, step_name step)))
        else if truthy refName then
          (case testCases c of
             None \<Rightarrow> Inl TypeError
           | Some index \<Rightarrow>
               (case map_get index (Some refName) of
                  Some testCase \<Rightarrow>
                    Inr (parseInt (get_prop testCase ''id''),
                         js_or (get_prop testCase ''name'') refName)
                | None \<Rightarrow> Inr (None, step_name step)))
        else Inr (None, step_name step))"

definition convertTestCaseRefStep :: "json \<Rightarrow> converter \<Rightarrow> error + (json \<times> converter)" where
  "convertTestCaseRefStep step c =
     (case lookup_ref step c of
        Inl e \<Rightarrow> Inl e
      | Inr (found, testCaseName) \<Rightarrow>
          (case (if found = None \<or> found = Some 0 then generateId c else (the found, c)) of
             (relatedId, c1) \<Rightarrow>
               (case randomUUID c1 of
                  (uuid, c2) \<Rightarrow>
                    Inr (JObj [(''id'', JStr uuid),
                               (''type'', JStr ''testCaseRef''),
                               (''disable'', defined_or (get_prop step ''disable'') (JBool False)),
                               (''parameters'', js_or (get_prop step ''parameters'') (JObj [])),
                               (''relatedId'', JNum relatedId),
                               (''name'', testCaseName),
                               (''number'', step_number step)],
                         c2))))"

text \<open>\<^verbatim>\<open>convertDelayStep(step)\<close>\<close>

definition convertDelayStep :: "json \<Rightarrow> converter \<Rightarrow> json \<times> converter" where
  "convertDelayStep step c =
     (case generateId c of
        (n, c') \<Rightarrow>
          (JObj [(''id'', JStr (string_of_int n)),
                 (''type'', JStr ''delay''),
                 (''disable'', JBool False),
                 (''parameters'', JObj [(''timeout'',
                    js_or (get_prop step ''timeout'') (js_or (get_prop step ''duration'') (JNum 1000)))]),
                 (''number'', step_number step)],
           c'))"

text \<open>\<^verbatim>\<open>convertScriptStep(step)\<close>; \<^verbatim>\<open>scriptData.replace\<close> needs a string.\<close>

definition convertScriptStep :: "json \<Rightarrow> converter \<Rightarrow> error + (json \<times> converter)" where
  "convertScriptStep step c =
     (case js_or (get_prop step ''data'') (JStr '''') of
        JStr scriptData \<Rightarrow>
          (case generateId c of
             (n, c') \<Rightarrow>
               Inr (JObj [(''id'', JStr (string_of_int n)),
                          (''type'', JStr ''script''),
                          (''disable'', defined_or (get_prop step ''disable'') (JBool False)),
                          (''parameters'', JObj
                             [(''data'', JStr (to_crlf scriptData)),
                              (''type'', JStr ''customScript''),
                              (''defaultEnable'',
                                 defined_or (get_prop step ''default_enable'')
                                   (defined_or (get_prop step ''defaultEnable'') (JBool True))),
                              (''enable'', defined_or (get_prop step ''enable'') (JBool True))]),
                          (''name'', js_or (get_prop step ''name'') (JStr '''')),
                          (''number'', step_number step)],
                    c'))
      | _ \<Rightarrow> Inl TypeError)"

subsection \<open>Conditional steps\<close>

text \<open>
  The operator table of \<^verbatim>\<open>invertOperator\<close>, and \<^verbatim>\<open>map[op] || 'notEqual'\<close>. The key is
  the string form of \<open>op\<close>. A name that every object inherits yields a function, which
  \<^verbatim>\<open>JSON.stringify\<close> leaves out (\<open>None\<close>), or for \<^verbatim>\<open>__proto__\<close> the prototype object,
  written as \<^verbatim>\<open>{}\<close>.
\<close>

definition operator_map :: "(string \<times> string) list" where
  "operator_map =
     [(''equal'', ''notEqual''), (''not_equal'', ''equal''), (''notEqual'', ''equal''),
      (''greater'', ''lessOrEqual''), (''less'', ''greaterOrEqual''),
      (''greaterOrEqual'', ''less''), (''lessOrEqual'', ''greater''),
      (''contains'', ''notContains''), (''notContains'', ''contains''),
      (''exists'', ''notExists''), (''notExists'', ''exists'')]"

definition inherited_methods :: "string list" where
  "inherited_methods =
     [''constructor'', ''__defineGetter__'', ''__defineSetter__'', ''hasOwnProperty'',
      ''__lookupGetter__'', ''__lookupSetter__'', ''isPrototypeOf'', ''propertyIsEnumerable'',
      ''toString'', ''valueOf'', ''toLocaleString'']"

definition invertOperator :: "json \<Rightarrow> json option" where
  "invertOperator op =
     (case map_of operator_map (js_String op) of
        Some opposite \<Rightarrow> Some (JStr opposite)
      | None \<Rightarrow>
          if js_String op \<in> set inherited_methods then None
          else if js_String op = ''__proto__'' then Some (JObj [])
          else Some (JStr ''notEqual''))"

text \<open>The \<^verbatim>\<open>parameters\<close> of an if node, from \<^verbatim>\<open>step.parameters\<close> or \<^verbatim>\<open>step.condition\<close>.\<close>

definition if_parameters :: "json \<Rightarrow> json" where
  "if_parameters step =
     (if truthy_opt (get_prop step ''parameters'') then
        (let p = the (get_prop step ''parameters'') in
           JObj [(''keyVariable'', js_or (get_prop p ''keyVariable'') (JStr '''')),
                 (''operator'', js_or (get_prop p ''operator'') (JStr ''equal'')),
                 (''valueVariable'', JStr (js_String (js_or (get_prop p ''valueVariable'') (JStr ''''))))])
      else
        (let condition = js_or (get_prop step ''condition'') (JObj []) in
           JObj [(''keyVariable'', js_or (get_prop condition ''variable'') (JStr '''')),
                 (''operator'', js_or (get_prop condition ''operator'') (JStr ''equal'')),
                 (''valueVariable'', JStr (js_String (js_or (get_prop condition ''value'') (JStr ''''))))]))"

text \<open>\<^verbatim>\<open>stepNumber + 1\<close>, where a string or an array or object makes it a concatenation.\<close>

definition plus_one :: "json \<Rightarrow> json" where
  "plus_one v =
     (case v of
        JNum n \<Rightarrow> JNum (n + 1)
      | JBool b \<Rightarrow> JNum (if b then 2 else 1)
      | JNull \<Rightarrow> JNum 1
      | j \<Rightarrow> JStr (js_String j @ ''1''))"

text \<open>The node that stands for an else child of an if step.\<close>

definition else_as_if :: "json \<Rightarrow> json \<Rightarrow> json \<Rightarrow> int \<Rightarrow> json list \<Rightarrow> json" where
  "else_as_if parameters stepNumber child n elseChildren =
     JObj [(''id'', JStr (string_of_int n)),
           (''type'', JStr ''if''),
           (''disable'', JBool False),
           (''parameters'', obj
              [(''keyVariable'', get_prop parameters ''keyVariable''),
               (''operator'', invertOperator (defined_or (get_prop parameters ''operator'') JNull)),
               (''valueVariable'', get_prop parameters ''valueVariable'')]),
           (''children'', JArr elseChildren),
           (''isOpen'', JBool True),
           (''number'', js_or (get_prop child ''number'') (plus_one stepNumber))]"

text \<open>
  The step kinds without children, as the child loops dispatch them on
  \<^verbatim>\<open>child.type || 'http'\<close>; \<open>None\<close> when the type is none of them.
\<close>

definition convert_leaf :: "json \<Rightarrow> converter \<Rightarrow> (error + (late list \<times> converter)) option" where
  "convert_leaf child c =
     (let childType = js_or (get_prop child ''type'') (JStr ''http'') in
        if childType = JStr ''http'' then
          Some (case convertHttpStep child c of Inl e \<Rightarrow> Inl e | Inr (out, c') \<Rightarrow> Inr ([out], c'))
        else if childType = JStr ''testCaseRef'' \<or> childType = JStr ''test_case_ref'' then
          Some (case convertTestCaseRefStep child c of
                  Inl e \<Rightarrow> Inl e | Inr (out, c') \<Rightarrow> Inr ([\<lambda>store. out], c'))
        else if childType = JStr ''delay'' \<or> childType = JStr ''wait'' then
          Some (case convertDelayStep child c of (out, c') \<Rightarrow> Inr ([\<lambda>store. out], c'))
        else if childType = JStr ''link'' then
          Some (case convertLinkedSteps child c of
                  Inl e \<Rightarrow> Inl e | Inr (outs, c') \<Rightarrow> Inr (map (\<lambda>out store. out) outs, c'))
        else if childType = JStr ''script'' then
          Some (case convertScriptStep child c of
                  Inl e \<Rightarrow> Inl e | Inr (out, c') \<Rightarrow> Inr ([\<lambda>store. out], c'))
        else None)"

text \<open>
  A loop that converts the elements of an array one after the other and pushes what
  each conversion yields; the first exception ends it.
\<close>

fun collect ::
  "('a \<Rightarrow> converter \<Rightarrow> error + ('b list \<times> converter)) \<Rightarrow> 'a list \<Rightarrow> converter \<Rightarrow>
   error + ('b list \<times> converter)" where
  "collect f [] c = Inr ([], c)"
| "collect f (x # xs) c =
     (case f x c of
        Inl e \<Rightarrow> Inl e
      | Inr (outs, c1) \<Rightarrow>
          (case collect f xs c1 of
             Inl e \<Rightarrow> Inl e
           | Inr (outs', c2) \<Rightarrow> Inr (outs @ outs', c2)))"

lemma collect_cong [fundef_cong]:
  assumes "xs = ys" and "c = d" and "\<And>x c'. x \<in> set ys \<Longrightarrow> f x c' = g x c'"
  shows "collect f xs c = collect g ys d"
proof -
  have "collect f ys e = collect g ys e" for e
    using assms(3) by (induction ys arbitrary: e) (simp_all split: sum.splits prod.splits)
  with assms(1,2) show ?thesis by simp
qed

lemma member_size: "x \<in> set xs \<Longrightarrow> size x < size_list size xs"
  by (induction xs) auto

lemma list_prop_member_size: "list_prop j k = Inr xs \<Longrightarrow> x \<in> set xs \<Longrightarrow> size x < size j"
  using list_prop_size [of j k xs] member_size [of x xs] by simp

text \<open>
  \<^verbatim>\<open>convertIfStep(step)\<close> with its two child loops: the one over the children of the if
  step, where an \<^verbatim>\<open>else\<close> child becomes an if node with the inverted operator, and the
  one over the children of such an else child, where an \<^verbatim>\<open>else\<close> is not handled. The
  children are converted before the id of their parent is generated.
\<close>

function convertIfStep :: "json \<Rightarrow> converter \<Rightarrow> error + (late \<times> converter)"
  and convert_if_child :: "json \<Rightarrow> json \<Rightarrow> json \<Rightarrow> converter \<Rightarrow> error + (late list \<times> converter)"
  and convert_else_child :: "json \<Rightarrow> converter \<Rightarrow> error + (late list \<times> converter)"
where
  "convertIfStep step c =
     (if step = JNull then Inl TypeError
      else
        (case list_prop step ''children'' of
           Inl e \<Rightarrow> Inl e
         | Inr children \<Rightarrow>
             (case collect (convert_if_child (if_parameters step) (step_number step)) children c of
                Inl e \<Rightarrow> Inl e
              | Inr (outs, c1) \<Rightarrow>
                  (case generateId c1 of
                     (n, c2) \<Rightarrow>
                       Inr (\<lambda>store.
                              JObj [(''id'', JStr (string_of_int n)),
                                    (''type'', JStr ''if''),
                                    (''disable'', JBool False),
                                    (''parameters'', if_parameters step),
                                    (''children'', JArr (map (\<lambda>out. out store) outs)),
                                    (''isOpen'', JBool True),
                                    (''number'', step_number step)],
                            c2)))))"
| "convert_if_child parameters stepNumber child c =
     (if child = JNull then Inl TypeError
      else
        (case convert_leaf child c of
           Some r \<Rightarrow> r
         | None \<Rightarrow>
             if js_or (get_prop child ''type'') (JStr ''http'') = JStr ''if'' then
               (case convertIfStep child c of
                  Inl e \<Rightarrow> Inl e
                | Inr (out, c') \<Rightarrow> Inr ([out], c'))
             else if js_or (get_prop child ''type'') (JStr ''http'') = JStr ''else'' then
               (case list_prop child ''children'' of
                  Inl e \<Rightarrow> Inl e
                | Inr elseChildren \<Rightarrow>
                    (case collect convert_else_child elseChildren c of
                       Inl e \<Rightarrow> Inl e
                     | Inr (outs, c1) \<Rightarrow>
                         (case generateId c1 of
                            (n, c2) \<Rightarrow>
                              Inr ([\<lambda>store. else_as_if parameters stepNumber child n
                                              (map (\<lambda>out. out store) outs)], c2))))
             else Inr ([], c)))"
| "convert_else_child child c =
     (if child = JNull then Inl TypeError
      else
        (case convert_leaf child c of
           Some r \<Rightarrow> r
         | None \<Rightarrow>
             if js_or (get_prop child ''type'') (JStr ''http'') = JStr ''if'' then
               (case convertIfStep child c of
                  Inl e \<Rightarrow> Inl e
                | Inr (out, c') \<Rightarrow> Inr ([out], c'))
             else Inr ([], c)))"
  by pat_completeness auto
termination
  by (relation "measure (\<lambda>x. case x of
           Inl (step, c) \<Rightarrow> 2 * size step
         | Inr (Inl (ps, n, child, c)) \<Rightarrow> 2 * size child + 1
         | Inr (Inr (child, c)) \<Rightarrow> 2 * size child + 1)")
     (auto dest: list_prop_member_size)

declare convertIfStep.simps [simp del]
declare convert_if_child.simps [simp del]
declare convert_else_child.simps [simp del]

text \<open>\<^verbatim>\<open>convertElseStep(step)\<close>, for an \<^verbatim>\<open>else\<close> at the top level.\<close>

definition convertElseStep :: "json \<Rightarrow> converter \<Rightarrow> error + (late \<times> converter)" where
  "convertElseStep step c =
     (case collect convert_else_child (array_children step) c of
        Inl e \<Rightarrow> Inl e
      | Inr (outs, c1) \<Rightarrow>
          (case generateId c1 of
             (n, c2) \<Rightarrow>
               Inr (\<lambda>store.
                      JObj [(''id'', JStr (string_of_int n)),
                            (''type'', JStr ''else''),
                            (''disable'', JBool False),
                            (''parameters'', JObj []),
                            (''isOpen'', JBool True),
                            (''children'', JArr (map (\<lambda>out. out store) outs)),
                            (''number'', step_number step)],
                    c2)))"

subsection \<open>Data sets and the test case\<close>

text \<open>\<^verbatim>\<open>convertDataset(dataset, testCaseId, datasetIndex)\<close>\<close>

definition convertDataset :: "json \<Rightarrow> int \<Rightarrow> nat \<Rightarrow> converter \<Rightarrow> error + (json \<times> converter)" where
  "convertDataset dataset testCaseId datasetIndex c =
     (if dataset = JNull then Inl TypeError
      else
        (case (if truthy_opt (get_prop dataset ''id'') then (the (get_prop dataset ''id''), c)
               else (case generateId c of (n, c') \<Rightarrow> (JNum n, c'))) of
           (datasetId, c1) \<Rightarrow>
        (case (if truthy_opt (get_prop dataset ''data_list_id'')
               then (the (get_prop dataset ''data_list_id''), c1)
               else (case generateId c1 of (n, c') \<Rightarrow> (JNum n, c'))) of
           (dataListId, c2) \<Rightarrow>
        (case js_or (get_prop dataset ''data'') (JStr '''') of
           JStr d \<Rightarrow>
             Inr (JObj [(''id'', datasetId),
                        (''name'', js_or (get_prop dataset ''name'')
                                     (JStr (''Data '' @ string_of_int (int datasetIndex + 1)))),
                        (''relatedId'', JNum testCaseId),
                        (''apiTestDataList'', JArr
                           [JObj [(''id'', dataListId),
                                  (''data'', JStr (trim d @ [CHR 0x0A])),
                                  (''dataSetId'', datasetId),
                                  (''relatedId'', JNum testCaseId),
                                  (''relatedType'', JNum 0),
                                  (''environmentId'', JNum 0)]])],
                  c2)
         | _ \<Rightarrow> Inl TypeError))))"

fun convert_datasets :: "json list \<Rightarrow> int \<Rightarrow> nat \<Rightarrow> converter \<Rightarrow> error + (json list \<times> converter)" where
  "convert_datasets [] testCaseId idx c = Inr ([], c)"
| "convert_datasets (dataset # rest) testCaseId idx c =
     (case convertDataset dataset testCaseId idx c of
        Inl e \<Rightarrow> Inl e
      | Inr (out, c1) \<Rightarrow>
          (case convert_datasets rest testCaseId (Suc idx) c1 of
             Inl e \<Rightarrow> Inl e
           | Inr (outs, c2) \<Rightarrow> Inr (out # outs, c2)))"

text \<open>
  The loop over \<^verbatim>\<open>yamlData.steps\<close> in \<^verbatim>\<open>convert\<close>, dispatching on
  \<^verbatim>\<open>step.type || 'http'\<close>; a step of any other type is passed over.
\<close>

definition convert_step :: "json \<Rightarrow> converter \<Rightarrow> error + (late list \<times> converter)" where
  "convert_step step c =
     (if step = JNull then Inl TypeError
      else
        (case convert_leaf step c of
           Some r \<Rightarrow> r
         | None \<Rightarrow>
             if js_or (get_prop step ''type'') (JStr ''http'') = JStr ''if'' then
               (case convertIfStep step c of Inl e \<Rightarrow> Inl e | Inr (out, c') \<Rightarrow> Inr ([out], c'))
             else if js_or (get_prop step ''type'') (JStr ''http'') = JStr ''else'' then
               (case convertElseStep step c of Inl e \<Rightarrow> Inl e | Inr (out, c') \<Rightarrow> Inr ([out], c'))
             else Inr ([], c)))"

text \<open>
  \<^verbatim>\<open>convert(yamlData)\<close>: the test case as it is written out, and the converter
  afterwards.
\<close>

definition convert_options :: "json \<Rightarrow> json \<Rightarrow> json" where
  "convert_options yamlData useDataSetId =
     (let optionsYaml = js_or (get_prop yamlData ''options'') (JObj []) in
        JObj [(''environmentId'', js_or (get_prop optionsYaml ''environment_id'') (JNum 0)),
              (''useDataSetId'', useDataSetId),
              (''iterationCount'', js_or (get_prop optionsYaml ''iteration_count'') (JNum 1)),
              (''threadCount'', js_or (get_prop optionsYaml ''thread_count'') (JNum 1)),
              (''runnerId'', JNum 0),
              (''onError'', js_or (get_prop optionsYaml ''on_error'') (JStr ''ignore'')),
              (''delayItem'', js_or (get_prop optionsYaml ''delay_item'') (JNum 0)),
              (''saveReportDetail'', js_or (get_prop optionsYaml ''save_report_detail'') (JStr ''all'')),
              (''saveVariables'', JBool True),
              (''readGlobalCookie'', JBool False),
              (''saveGlobalCookie'', JBool False)])"

definition convert :: "(string \<Rightarrow> json option) \<Rightarrow> json \<Rightarrow> converter \<Rightarrow> error + (json \<times> converter)" where
  "convert files yamlData c =
     (if yamlData = JNull then Inl TypeError
      else
        (case (if truthy_opt (get_prop yamlData ''source_apidog'')
               then loadSourceApidog files (the (get_prop yamlData ''source_apidog'')) c
               else Inr c) of
           Inl e \<Rightarrow> Inl e
         | Inr c0 \<Rightarrow>
        (case generateId c0 of (testCaseId, c1) \<Rightarrow>
        (case list_prop yamlData ''steps'' of
           Inl e \<Rightarrow> Inl e
         | Inr steps \<Rightarrow>
        (case collect convert_step steps c1 of
           Inl e \<Rightarrow> Inl e
         | Inr (outs, c2) \<Rightarrow>
        (case list_prop yamlData ''datasets'' of
           Inl e \<Rightarrow> Inl e
         | Inr datasetsYaml \<Rightarrow>
        (case convert_datasets datasetsYaml testCaseId 0 c2 of
           Inl e \<Rightarrow> Inl e
         | Inr (datasets, c3) \<Rightarrow>
             Inr (JObj
                   ([(''steps'', JArr (map (\<lambda>out. out (apiItems c3)) outs)),
                     (''id'', JNum testCaseId),
                     (''name'', js_or (get_prop yamlData ''name'') (JStr ''Test Scenario'')),
                     (''tags'', js_or (get_prop yamlData ''tags'') (JArr [])),
                     (''options'', convert_options yamlData
                        (case datasets of [] \<Rightarrow> JNum 0
                         | d # ds \<Rightarrow> defined_or (get_prop d ''id'') JNull)),
                     (''priority'', js_or (get_prop yamlData ''priority'') (JNum 2)),
                     (''ordering'', JNum 10),
                     (''description'', js_or (get_prop yamlData ''description'') (JStr '''')),
                     (''preProcessors'', JArr []),
                     (''postProcessors'', JArr []),
                     (''children'', JArr []),
                     (''performanceTestOptions'', JObj []),
                     (''apiTestDataSets'', JArr datasets)]
                    @ (if truthy_opt (get_prop yamlData ''folder'')
                       then [(''_folder'', the (get_prop yamlData ''folder''))] else [])),
                  c3))))))))"

section \<open>The reverse converter (class ApidogReverseConverter, scripts/merge\_test\_cases.js)\<close>

text \<open>
  \<^verbatim>\<open>class ApidogReverseConverter\<close>, from an Apidog test case back to a scenario document.
  The functions that have a namesake in the forward converter carry the prefix
  \<open>reverse\<close>. As before, where the script iterates over a property behind a guard,
  the model takes an array, or nothing when the property is falsy or missing, and any
  other value is \<open>Unsupported\<close>. An object literal is written with \<open>obj\<close>, which leaves
  out a property whose value is \<^verbatim>\<open>undefined\<close>.
\<close>

subsection \<open>The index of test cases\<close>

record reverse_converter =
  testCasesByKey :: "(json option \<times> json) list"
  testCasesByName :: "(json option \<times> json) list"

definition new_reverse_converter :: reverse_converter where
  "new_reverse_converter = \<lparr>testCasesByKey = [], testCasesByName = []\<rparr>"

text \<open>\<^verbatim>\<open>indexTestCases(collections)\<close>; \<open>testCasesByKey\<close> is \<^verbatim>\<open>this.testCases\<close>, keyed by \<^verbatim>\<open>item.id\<close>.\<close>

fun reverse_index_items :: "json list \<Rightarrow> reverse_converter \<Rightarrow> error + reverse_converter" where
  "reverse_index_items [] r = Inr r"
| "reverse_index_items (item # items) r =
     (if item = JNull then Inl TypeError
      else reverse_index_items items
             \<lparr>testCasesByKey =
                (if truthy_opt (get_prop item ''id'')
                 then map_set (testCasesByKey r) (get_prop item ''id'') item else testCasesByKey r),
              testCasesByName =
                (if truthy_opt (get_prop item ''name'')
                 then map_set (testCasesByName r) (get_prop item ''name'') item
                 else testCasesByName r)\<rparr>)"

function reverse_indexTestCases :: "json list \<Rightarrow> reverse_converter \<Rightarrow> error + reverse_converter" where
  "reverse_indexTestCases [] r = Inr r"
| "reverse_indexTestCases (collection # rest) r =
     (if collection = JNull then Inl TypeError
      else
        (case list_prop collection ''items'' of
           Inl e \<Rightarrow> Inl e
         | Inr items \<Rightarrow>
        (case reverse_index_items items r of
           Inl e \<Rightarrow> Inl e
         | Inr r1 \<Rightarrow>
        (case list_prop collection ''children'' of
           Inl e \<Rightarrow> Inl e
         | Inr children \<Rightarrow>
        (case reverse_indexTestCases children r1 of
           Inl e \<Rightarrow> Inl e
         | Inr r2 \<Rightarrow> reverse_indexTestCases rest r2)))))"
  by pat_completeness auto
termination
  by (relation "measure (\<lambda>(cs, r). size_list size cs)") (auto dest: list_prop_size)

subsection \<open>Processors and assertions\<close>

text \<open>\<^verbatim>\<open>convertPostProcessorsToAssertions(postProcessors)\<close>\<close>

definition reverse_assertion :: "json \<Rightarrow> json" where
  "reverse_assertion data =
     JObj [(''name'', js_or (get_prop data ''name'') (JStr '''')),
           (''subject'', js_or (get_prop data ''subject'') (JStr ''responseJson'')),
           (''comparison'', js_or (get_prop data ''comparison'') (JStr ''equal'')),
           (''value'', js_or (get_prop data ''value'') (JStr '''')),
           (''path'', js_or (get_prop data ''path'')
                        (js_or (case get_prop data ''extractSettings'' of
                                  None \<Rightarrow> None
                                | Some settings \<Rightarrow>
                                    if settings = JNull then None else get_prop settings ''expression'')
                           (JStr '''')))]"

fun convertPostProcessorsToAssertions :: "json list \<Rightarrow> error + json list" where
  "convertPostProcessorsToAssertions [] = Inr []"
| "convertPostProcessorsToAssertions (processor # rest) =
     (if processor = JNull then Inl TypeError
      else
        (case convertPostProcessorsToAssertions rest of
           Inl e \<Rightarrow> Inl e
         | Inr assertions \<Rightarrow>
             if get_prop processor ''type'' = Some (JStr ''assertion'')
                \<and> truthy_opt (get_prop processor ''data'')
             then Inr (reverse_assertion (the (get_prop processor ''data'')) # assertions)
             else Inr assertions))"

text \<open>
  What \<^verbatim>\<open>convertPostProcessors\<close> and \<^verbatim>\<open>convertPreProcessors\<close> make of a processor they
  keep; the line ends of a script are set back to \<^verbatim>\<open>\n\<close>.
\<close>

definition reverse_processor :: "json \<Rightarrow> json" where
  "reverse_processor processor =
     JObj [(''type'', js_or (get_prop processor ''type'') (JStr ''unknown'')),
           (''enable'', defined_or (get_prop processor ''enable'') (JBool True)),
           (''default_enable'', defined_or (get_prop processor ''defaultEnable'') (JBool False)),
           (''data'',
              (case get_prop processor ''data'' of
                 Some (JStr d) \<Rightarrow>
                   if get_prop processor ''type'' = Some (JStr ''customScript'') then JStr (to_lf d)
                   else js_or (Some (JStr d)) (JObj [])
               | v \<Rightarrow> js_or v (JObj [])))]"

fun reverse_convertPostProcessors :: "json list \<Rightarrow> error + json list" where
  "reverse_convertPostProcessors [] = Inr []"
| "reverse_convertPostProcessors (processor # rest) =
     (if processor = JNull then Inl TypeError
      else
        (case reverse_convertPostProcessors rest of
           Inl e \<Rightarrow> Inl e
         | Inr converted \<Rightarrow>
             if get_prop processor ''type'' = Some (JStr ''assertion'') then Inr converted
             else Inr (reverse_processor processor # converted)))"

fun reverse_convertPreProcessors :: "json list \<Rightarrow> error + json list" where
  "reverse_convertPreProcessors [] = Inr []"
| "reverse_convertPreProcessors (processor # rest) =
     (if processor = JNull then Inl TypeError
      else
        (case reverse_convertPreProcessors rest of
           Inl e \<Rightarrow> Inl e
         | Inr converted \<Rightarrow>
             if get_prop processor ''type'' = Some (JStr ''placeholder'')
                \<or> get_prop processor ''type'' = Some (JStr ''inheritProcessors'')
             then Inr converted
             else Inr (reverse_processor processor # converted)))"

subsection \<open>Overrides\<close>

text \<open>
  \<^verbatim>\<open>extractParameterOverrides(parameters, originalParameters)\<close>. \<^verbatim>\<open>!==\<close> on two values
  read from different objects holds unless they are the same primitive or both
  undefined.
\<close>

fun original_map :: "json list \<Rightarrow> (json option \<times> json) list \<Rightarrow> error + (json option \<times> json) list" where
  "original_map [] m = Inr m"
| "original_map (p # ps) m =
     (if p = JNull then Inl TypeError
      else original_map ps (if truthy_opt (get_prop p ''name'') then map_set m (get_prop p ''name'') p
                            else m))"

fun extract_overrides :: "(json option \<times> json) list \<Rightarrow> json list \<Rightarrow> error + json list" where
  "extract_overrides originalMap [] = Inr []"
| "extract_overrides originalMap (param # params) =
     (if param = JNull then Inl TypeError
      else
        (case extract_overrides originalMap params of
           Inl e \<Rightarrow> Inl e
         | Inr overrides \<Rightarrow>
             if \<not> truthy_opt (get_prop param ''enable'') \<and> \<not> truthy_opt (get_prop param ''value'')
             then Inr overrides
             else
               (case map_get originalMap (get_prop param ''name'') of
                  Some original \<Rightarrow>
                    if \<not> same_value (get_prop param ''value'') (get_prop original ''value'')
                       \<or> \<not> same_value (get_prop param ''enable'') (get_prop original ''enable'')
                    then Inr (obj [(''name'', get_prop param ''name''),
                                   (''value'', Some (js_or (get_prop param ''value'') (JStr '''')))]
                              # overrides)
                    else Inr overrides
                | None \<Rightarrow>
                    Inr (obj [(''name'', get_prop param ''name''),
                              (''value'', Some (js_or (get_prop param ''value'') (JStr '''')))]
                         # overrides))))"

definition extractParameterOverrides :: "json option \<Rightarrow> json \<Rightarrow> error + json list" where
  "extractParameterOverrides parameters originalParameters =
     (case parameters of
        Some (JArr params) \<Rightarrow>
          (case original_map (case originalParameters of JArr ps \<Rightarrow> ps | _ \<Rightarrow> []) [] of
             Inl e \<Rightarrow> Inl e
           | Inr originalMap \<Rightarrow> extract_overrides originalMap params)
      | _ \<Rightarrow> Inr [])"

text \<open>
  \<^verbatim>\<open>extractRequestBodyOverride(httpApiCase)\<close>; \<open>None\<close> is \<^verbatim>\<open>null\<close>. The test
  \<^verbatim>\<open>requestBody.type === 'none' || !requestBody.data\<close> comes before the form data are
  looked at.
\<close>

fun form_data_overrides :: "json list \<Rightarrow> error + json list" where
  "form_data_overrides [] = Inr []"
| "form_data_overrides (param # params) =
     (if param = JNull then Inl TypeError
      else
        (case form_data_overrides params of
           Inl e \<Rightarrow> Inl e
         | Inr overrides \<Rightarrow>
             if truthy_opt (get_prop param ''enable'') \<and> get_prop param ''value'' \<noteq> None
             then Inr (obj [(''name'', get_prop param ''name''),
                            (''type'', Some (js_or (get_prop param ''type'') (JStr ''string''))),
                            (''value'', get_prop param ''value''),
                            (''enable'', Some (defined_or (get_prop param ''enable'') (JBool True)))]
                       # overrides)
             else Inr overrides))"

definition extractRequestBodyOverride :: "json \<Rightarrow> error + json option" where
  "extractRequestBodyOverride httpApiCase =
     (let requestBody = js_or (get_prop httpApiCase ''requestBody'') JNull in
        if \<not> truthy requestBody then Inr None
        else if get_prop requestBody ''type'' = Some (JStr ''none'')
                \<or> \<not> truthy_opt (get_prop requestBody ''data'') then Inr None
        else
          (case (if get_prop requestBody ''type'' = Some (JStr ''multipart/form-data'')
                 then (case list_prop requestBody ''parameters'' of
                         Inl e \<Rightarrow> Inl e
                       | Inr params \<Rightarrow> form_data_overrides params)
                 else Inr []) of
             Inl e \<Rightarrow> Inl e
           | Inr (override # overrides) \<Rightarrow>
               Inr (Some (JObj [(''type'', JStr ''form_data''),
                                (''form_data_override'', JArr (override # overrides))]))
           | Inr [] \<Rightarrow>
               (case get_prop requestBody ''data'' of
                  Some (JStr d) \<Rightarrow>
                    if trim d \<noteq> []
                    then Inr (Some (JObj [(''type'', js_or (get_prop requestBody ''type'')
                                                      (JStr ''application/json'')),
                                          (''data'', JStr (trim d))]))
                    else Inr None
                | _ \<Rightarrow> Inl TypeError)))"

subsection \<open>Steps\<close>

text \<open>
  The functions that convert one step are called from the loops of \<^verbatim>\<open>convert\<close> and
  \<^verbatim>\<open>convertIfStep\<close>, which have read \<^verbatim>\<open>step.type\<close> before: the step is not null there
  (see \<open>reverse_convert_step\<close>).

  \<^verbatim>\<open>convertHttpStep(step, apiDefinitions)\<close>; \<open>None\<close> is the \<^verbatim>\<open>null\<close> it returns for a step
  without \<^verbatim>\<open>httpApiCase\<close>. The overrides of one kind are taken from a non-empty array of
  parameters, with no original parameters to compare with.
\<close>

definition reverse_step_number :: "json \<Rightarrow> json" where
  "reverse_step_number step = js_or (get_prop step ''number'') (JNum 1)"

definition reverse_auth :: "json \<Rightarrow> json option" where
  "reverse_auth httpApiCase =
     (let auth = js_or (get_prop httpApiCase ''auth'') JNull in
        if \<not> truthy auth then None
        else if get_prop auth ''type'' = Some (JStr ''bearer'') \<and> truthy_opt (get_prop auth ''bearer'')
        then Some (JObj [(''type'', JStr ''bearer''),
                         (''token'', js_or (get_prop (the (get_prop auth ''bearer'')) ''token'')
                                       (JStr ''''))])
        else if truthy_opt (get_prop auth ''type'') then Some auth
        else None)"

definition parameter_overrides :: "json \<Rightarrow> string \<Rightarrow> error + json option" where
  "parameter_overrides httpApiCase kind =
     (case get_prop (js_or (get_prop httpApiCase ''parameters'') JNull) kind of
        Some (JArr (p # ps)) \<Rightarrow>
          (case extractParameterOverrides (Some (JArr (p # ps))) JNull of
             Inl e \<Rightarrow> Inl e
           | Inr [] \<Rightarrow> Inr None
           | Inr overrides \<Rightarrow> Inr (Some (JArr overrides)))
      | _ \<Rightarrow> Inr None)"

definition nonempty_array :: "json list \<Rightarrow> json option" where
  "nonempty_array xs = (if xs = [] then None else Some (JArr xs))"

definition reverse_convertHttpStep :: "json \<Rightarrow> error + json option" where
  "reverse_convertHttpStep step =
     (let httpApiCase = js_or (get_prop step ''httpApiCase'') JNull in
      if \<not> truthy httpApiCase then Inr None
      else
     (case (if truthy_opt (get_prop httpApiCase ''method'')
            then (case get_prop httpApiCase ''method'' of
                    Some (JStr m) \<Rightarrow> Inr (Some (JStr (toUpperCase m)))
                  | _ \<Rightarrow> Inl TypeError)
            else Inr None) of
        Inl e \<Rightarrow> Inl e
      | Inr method \<Rightarrow>
     (case extractRequestBodyOverride httpApiCase of
        Inl e \<Rightarrow> Inl e
      | Inr requestBodyOverride \<Rightarrow>
     (case parameter_overrides httpApiCase ''query'' of
        Inl e \<Rightarrow> Inl e
      | Inr queryOverrides \<Rightarrow>
     (case parameter_overrides httpApiCase ''path'' of
        Inl e \<Rightarrow> Inl e
      | Inr pathOverrides \<Rightarrow>
     (case parameter_overrides httpApiCase ''header'' of
        Inl e \<Rightarrow> Inl e
      | Inr headerOverrides \<Rightarrow>
     (case parameter_overrides httpApiCase ''cookie'' of
        Inl e \<Rightarrow> Inl e
      | Inr cookieOverrides \<Rightarrow>
     (case list_prop httpApiCase ''preProcessors'' of
        Inl e \<Rightarrow> Inl e
      | Inr pre \<Rightarrow>
     (case reverse_convertPreProcessors pre of
        Inl e \<Rightarrow> Inl e
      | Inr preProcessors \<Rightarrow>
     (case list_prop httpApiCase ''postProcessors'' of
        Inl e \<Rightarrow> Inl e
      | Inr post \<Rightarrow>
     (case convertPostProcessorsToAssertions post of
        Inl e \<Rightarrow> Inl e
      | Inr assertions \<Rightarrow>
     (case reverse_convertPostProcessors post of
        Inl e \<Rightarrow> Inl e
      | Inr postProcessors \<Rightarrow>
          Inr (Some (obj
            [(''number'', Some (reverse_step_number step)),
             (''name'', Some (js_or (get_prop step ''name'')
                                (JStr (''Step '' @ js_String (reverse_step_number step))))),
             (''type'', Some (JStr ''http'')),
             (''path'', if truthy_opt (get_prop httpApiCase ''path'')
                        then get_prop httpApiCase ''path'' else None),
             (''method'', method),
             (''auth'', reverse_auth httpApiCase),
             (''request_form_data_override'',
                (case requestBodyOverride of
                   Some override \<Rightarrow>
                     if get_prop override ''type'' = Some (JStr ''form_data'')
                     then get_prop override ''form_data_override'' else None
                 | None \<Rightarrow> None)),
             (''request_body_override'',
                (case requestBodyOverride of
                   Some override \<Rightarrow>
                     if get_prop override ''type'' = Some (JStr ''form_data'') then None
                     else Some (obj [(''type'', get_prop override ''type''),
                                     (''data'', get_prop override ''data'')])
                 | None \<Rightarrow> None)),
             (''query_params_override'', queryOverrides),
             (''path_params_override'', pathOverrides),
             (''header_params_override'', headerOverrides),
             (''cookie_params_override'', cookieOverrides),
             (''pre_processors'', nonempty_array preProcessors),
             (''assertions'', nonempty_array assertions),
             (''post_processors'', nonempty_array postProcessors),
             (''disable_response_validation'',
                if get_prop httpApiCase ''responseId'' = Some (JNum 0)
                   \<or> get_prop httpApiCase ''responseId'' = Some (JStr ''0'')
                then Some (JBool True) else None)]))))))))))))))"

text \<open>
  \<^verbatim>\<open>convertTestCaseRefStep(step)\<close>: the test case is looked up under
  \<^verbatim>\<open>String(relatedId)\<close> and then under \<^verbatim>\<open>parseInt(relatedId)\<close>.
  \<^verbatim>\<open>Object.keys(step.parameters).length > 0\<close> counts the entries of an object, the
  elements of an array and the characters of a string.
\<close>

definition has_keys :: "json \<Rightarrow> bool" where
  "has_keys v = (case v of JObj kvs \<Rightarrow> kvs \<noteq> [] | JArr xs \<Rightarrow> xs \<noteq> [] | JStr s \<Rightarrow> s \<noteq> [] | _ \<Rightarrow> False)"

definition lookup_related :: "reverse_converter \<Rightarrow> json \<Rightarrow> json option" where
  "lookup_related r relatedId =
     (case map_get (testCasesByKey r) (Some (JStr (js_String relatedId))) of
        Some testCase \<Rightarrow> Some testCase
      | None \<Rightarrow>
          (case parseInt (Some relatedId) of
             Some n \<Rightarrow> map_get (testCasesByKey r) (Some (JNum n))
           | None \<Rightarrow> None))"

definition reverse_convertTestCaseRefStep :: "reverse_converter \<Rightarrow> json \<Rightarrow> json" where
  "reverse_convertTestCaseRefStep r step =
     obj [(''number'', Some (reverse_step_number step)),
          (''type'', Some (JStr ''testCaseRef'')),
          (''name'', Some (js_or (get_prop step ''name'')
                             (JStr (''Step '' @ js_String (reverse_step_number step))))),
          (''ref_name'',
             if truthy_opt (get_prop step ''relatedId'') then
               (case lookup_related r (the (get_prop step ''relatedId'')) of
                  Some testCase \<Rightarrow>
                    if truthy_opt (get_prop testCase ''name'') then get_prop testCase ''name'' else None
                | None \<Rightarrow> None)
             else None),
          (''ref_id'',
             if truthy_opt (get_prop step ''relatedId'') then
               (case lookup_related r (the (get_prop step ''relatedId'')) of
                  Some testCase \<Rightarrow>
                    if truthy_opt (get_prop testCase ''name'') then None else get_prop step ''relatedId''
                | None \<Rightarrow> get_prop step ''relatedId'')
             else None),
          (''disable'', get_prop step ''disable''),
          (''parameters'',
             if truthy_opt (get_prop step ''parameters'') \<and> has_keys (the (get_prop step ''parameters''))
             then get_prop step ''parameters'' else None)]"

text \<open>\<^verbatim>\<open>convertDelayStep(step)\<close>; \<^verbatim>\<open>step.parameters?.timeout\<close> is undefined without parameters.\<close>

definition optional_prop :: "json option \<Rightarrow> string \<Rightarrow> json option" where
  "optional_prop v k = (case v of None \<Rightarrow> None | Some j \<Rightarrow> if j = JNull then None else get_prop j k)"

definition reverse_convertDelayStep :: "json \<Rightarrow> json" where
  "reverse_convertDelayStep step =
     JObj [(''number'', reverse_step_number step),
           (''type'', JStr ''delay''),
           (''timeout'', js_or (optional_prop (get_prop step ''parameters'') ''timeout'') (JNum 1000))]"

text \<open>\<^verbatim>\<open>convertScriptStep(step)\<close>; \<^verbatim>\<open>scriptData.replace\<close> needs a string.\<close>

definition reverse_convertScriptStep :: "json \<Rightarrow> error + json" where
  "reverse_convertScriptStep step =
     (case js_or (optional_prop (get_prop step ''parameters'') ''data'') (JStr '''') of
        JStr scriptData \<Rightarrow>
          Inr (obj [(''number'', Some (reverse_step_number step)),
                    (''type'', Some (JStr ''script'')),
                    (''data'', Some (JStr (to_lf scriptData))),
                    (''name'', if truthy_opt (get_prop step ''name'') then get_prop step ''name''
                               else None),
                    (''enable'', if truthy_opt (get_prop step ''parameters'')
                                 then get_prop (the (get_prop step ''parameters'')) ''enable''
                                 else None),
                    (''default_enable'',
                       if truthy_opt (get_prop step ''parameters'')
                       then get_prop (the (get_prop step ''parameters'')) ''defaultEnable''
                       else None),
                    (''disable'', get_prop step ''disable'')])
      | _ \<Rightarrow> Inl TypeError)"

text \<open>
  A loop that converts the steps of an array one after the other and pushes every
  result that is not \<^verbatim>\<open>null\<close>.
\<close>

fun collect_some :: "('a \<Rightarrow> error + 'b option) \<Rightarrow> 'a list \<Rightarrow> error + 'b list" where
  "collect_some f [] = Inr []"
| "collect_some f (x # xs) =
     (case f x of
        Inl e \<Rightarrow> Inl e
      | Inr converted \<Rightarrow>
          (case collect_some f xs of
             Inl e \<Rightarrow> Inl e
           | Inr rest \<Rightarrow> Inr ((case converted of Some y \<Rightarrow> [y] | None \<Rightarrow> []) @ rest)))"

lemma collect_some_cong [fundef_cong]:
  assumes "xs = ys" and "\<And>x. x \<in> set ys \<Longrightarrow> f x = g x"
  shows "collect_some f xs = collect_some g ys"
proof -
  have "collect_some f ys = collect_some g ys"
    using assms(2) by (induction ys) (simp_all split: sum.splits)
  with assms(1) show ?thesis by simp
qed

lemma children_member_size:
  "get_prop step ''children'' = Some (JArr children) \<Longrightarrow> child \<in> set children \<Longrightarrow> size child < size step"
  using array_children_size [of step] member_size [of child children]
  by (simp add: array_children_def)

text \<open>
  \<^verbatim>\<open>convertIfStep(step)\<close>, and the body of its loop over \<^verbatim>\<open>step.children\<close>, which is also
  the body of the loop over \<^verbatim>\<open>testCase.steps\<close> in \<^verbatim>\<open>convert\<close>: the step is converted
  according to its \<^verbatim>\<open>type\<close>, and a step of any other type gives \<^verbatim>\<open>null\<close>.
\<close>

function reverse_convertIfStep :: "reverse_converter \<Rightarrow> json \<Rightarrow> error + json"
  and reverse_convert_step :: "reverse_converter \<Rightarrow> json \<Rightarrow> error + json option"
where
  "reverse_convertIfStep r step =
     (case (case get_prop step ''children'' of
              Some (JArr children) \<Rightarrow>
                (case collect_some (reverse_convert_step r) children of
                   Inl e \<Rightarrow> Inl e
                 | Inr converted \<Rightarrow> Inr (Some (JArr converted)))
            | _ \<Rightarrow> Inr None) of
        Inl e \<Rightarrow> Inl e
      | Inr children \<Rightarrow>
          Inr (obj [(''number'', Some (reverse_step_number step)),
                    (''type'', Some (JStr ''if'')),
                    (''condition'', Some (JObj
                       [(''variable'', js_or (get_prop (js_or (get_prop step ''parameters'') (JObj []))
                                                ''keyVariable'') (JStr '''')),
                        (''operator'', js_or (get_prop (js_or (get_prop step ''parameters'') (JObj []))
                                                ''operator'') (JStr ''equal'')),
                        (''value'', js_or (get_prop (js_or (get_prop step ''parameters'') (JObj []))
                                             ''valueVariable'') (JStr ''''))])),
                    (''children'', children)]))"
| "reverse_convert_step r step =
     (if step = JNull then Inl TypeError
      else if get_prop step ''type'' = Some (JStr ''http'') then reverse_convertHttpStep step
      else if get_prop step ''type'' = Some (JStr ''testCaseRef'')
      then Inr (Some (reverse_convertTestCaseRefStep r step))
      else if get_prop step ''type'' = Some (JStr ''delay'')
      then Inr (Some (reverse_convertDelayStep step))
      else if get_prop step ''type'' = Some (JStr ''script'')
      then (case reverse_convertScriptStep step of Inl e \<Rightarrow> Inl e | Inr y \<Rightarrow> Inr (Some y))
      else if get_prop step ''type'' = Some (JStr ''if'')
      then (case reverse_convertIfStep r step of Inl e \<Rightarrow> Inl e | Inr y \<Rightarrow> Inr (Some y))
      else Inr None)"
  by pat_completeness auto
termination
  by (relation "measure (\<lambda>x. case x of
           Inl (r, step) \<Rightarrow> 2 * size step
         | Inr (r, step) \<Rightarrow> 2 * size step + 1)")
     (auto dest: children_member_size)

declare reverse_convertIfStep.simps [simp del]
declare reverse_convert_step.simps [simp del]

subsection \<open>Data sets and the scenario\<close>

text \<open>\<^verbatim>\<open>convertDatasets(apiTestDataSets)\<close>\<close>

definition reverse_dataset :: "json \<Rightarrow> nat \<Rightarrow> error + json" where
  "reverse_dataset dataset index =
     (if dataset = JNull then Inl TypeError
      else
        (case list_prop dataset ''apiTestDataList'' of
           Inl e \<Rightarrow> Inl e
         | Inr [] \<Rightarrow>
             Inr (obj [(''name'', Some (js_or (get_prop dataset ''name'')
                                          (JStr (''Data '' @ string_of_int (int index + 1))))),
                       (''id'', if truthy_opt (get_prop dataset ''id'') then get_prop dataset ''id''
                                else None)])
         | Inr (dataList # others) \<Rightarrow>
             if dataList = JNull then Inl TypeError
             else
               (case (if truthy_opt (get_prop dataList ''data'')
                      then (case get_prop dataList ''data'' of
                              Some (JStr d) \<Rightarrow> Inr (Some (JStr (trim d)))
                            | _ \<Rightarrow> Inl TypeError)
                      else Inr None) of
                  Inl e \<Rightarrow> Inl e
                | Inr data \<Rightarrow>
                    Inr (obj [(''name'', Some (js_or (get_prop dataset ''name'')
                                                 (JStr (''Data '' @ string_of_int (int index + 1))))),
                              (''id'', if truthy_opt (get_prop dataset ''id'')
                                       then get_prop dataset ''id'' else None),
                              (''data_list_id'', if truthy_opt (get_prop dataList ''id'')
                                                 then get_prop dataList ''id'' else None),
                              (''data'', data)]))))"

fun reverse_datasets :: "json list \<Rightarrow> nat \<Rightarrow> error + json list" where
  "reverse_datasets [] index = Inr []"
| "reverse_datasets (dataset # rest) index =
     (case reverse_dataset dataset index of
        Inl e \<Rightarrow> Inl e
      | Inr y \<Rightarrow>
          (case reverse_datasets rest (Suc index) of
             Inl e \<Rightarrow> Inl e
           | Inr ys \<Rightarrow> Inr (y # ys)))"

definition reverse_convertDatasets :: "json \<Rightarrow> error + json list" where
  "reverse_convertDatasets testCase =
     (case list_prop testCase ''apiTestDataSets'' of
        Inl e \<Rightarrow> Inl e
      | Inr datasets \<Rightarrow> reverse_datasets datasets 0)"

text \<open>
  \<^verbatim>\<open>convert(testCase, sourceApidogPath)\<close>; the steps are converted when \<^verbatim>\<open>testCase.steps\<close>
  is an array.
\<close>

definition reverse_options :: "json \<Rightarrow> json option" where
  "reverse_options testCase =
     (if truthy_opt (get_prop testCase ''options'') then
        (let options = the (get_prop testCase ''options'') in
           Some (JObj
             [(''environment_id'', js_or (get_prop options ''environmentId'') (JNum 0)),
              (''iteration_count'', js_or (get_prop options ''iterationCount'') (JNum 1)),
              (''thread_count'', js_or (get_prop options ''threadCount'') (JNum 1)),
              (''on_error'', js_or (get_prop options ''onError'') (JStr ''ignore'')),
              (''delay_item'', js_or (get_prop options ''delayItem'') (JNum 0)),
              (''save_report_detail'', js_or (get_prop options ''saveReportDetail'') (JStr ''all''))]))
      else None)"

definition reverse_convert :: "reverse_converter \<Rightarrow> json \<Rightarrow> json \<Rightarrow> error + json" where
  "reverse_convert r testCase sourceApidogPath =
     (if testCase = JNull then Inl TypeError
      else
        (case reverse_convertDatasets testCase of
           Inl e \<Rightarrow> Inl e
         | Inr datasets \<Rightarrow>
        (case collect_some (reverse_convert_step r)
                (case get_prop testCase ''steps'' of Some (JArr steps) \<Rightarrow> steps | _ \<Rightarrow> []) of
           Inl e \<Rightarrow> Inl e
         | Inr steps \<Rightarrow>
             Inr (obj [(''name'', Some (js_or (get_prop testCase ''name'') (JStr ''Test Scenario''))),
                       (''description'', Some (js_or (get_prop testCase ''description'') (JStr ''''))),
                       (''priority'', Some (js_or (get_prop testCase ''priority'') (JNum 2))),
                       (''tags'', Some (js_or (get_prop testCase ''tags'') (JArr []))),
                       (''source_apidog'', if truthy sourceApidogPath then Some sourceApidogPath
                                           else None),
                       (''options'', reverse_options testCase),
                       (''datasets'', Some (JArr datasets)),
                       (''steps'', Some (JArr steps))]))))"

section \<open>Observations used to state the properties\<close>

text \<open>
  The numeric values found under an \<^verbatim>\<open>id\<close> key anywhere in a document, in the order
  \<^verbatim>\<open>reassignRecursive\<close> visits them.
\<close>

fun ids_of :: "json \<Rightarrow> int list"
  and ids_of_items :: "json list \<Rightarrow> int list"
  and ids_of_entries :: "(string \<times> json) list \<Rightarrow> int list"
where
  "ids_of (JArr xs) = ids_of_items xs"
| "ids_of (JObj kvs) = ids_of_entries kvs"
| "ids_of JNull = []"
| "ids_of (JBool b) = []"
| "ids_of (JNum n) = []"
| "ids_of (JStr s) = []"
| "ids_of_items [] = []"
| "ids_of_items (x # xs) = ids_of x @ ids_of_items xs"
| "ids_of_entries [] = []"
| "ids_of_entries ((key, JNum v) # kvs) =
     (if key = ''id'' then v # ids_of_entries kvs else ids_of_entries kvs)"
| "ids_of_entries ((key, val) # kvs) = ids_of val @ ids_of_entries kvs"

text \<open>The id step of \<^verbatim>\<open>reassignRecursive\<close> run over a plain sequence of ids.\<close>

fun reassign_seq :: "int list \<Rightarrow> merger \<times> idmap \<Rightarrow> int list \<times> (merger \<times> idmap)" where
  "reassign_seq [] s = ([], s)"
| "reassign_seq (v # vs) s =
     (case reassign_id v s of (w, s1) \<Rightarrow>
        (case reassign_seq vs s1 of (ws, s2) \<Rightarrow> (w # ws, s2)))"

text \<open>
  What holds of \<^verbatim>\<open>usedIds\<close> and \<^verbatim>\<open>idMap\<close> throughout a walk: every replacement handed
  out is a used id, and no id is mapped to itself.
\<close>

definition st_ok :: "merger \<times> idmap \<Rightarrow> bool" where
  "st_ok s \<longleftrightarrow> ran (snd s) \<subseteq> set (usedIds (fst s)) \<and> (\<forall>v w. snd s v = Some w \<longrightarrow> w \<noteq> v)"

text \<open>
  A parsed document has no object with two entries under one key.
\<close>

fun wf_json :: "json \<Rightarrow> bool"
  and wf_items :: "json list \<Rightarrow> bool"
  and wf_values :: "(string \<times> json) list \<Rightarrow> bool"
where
  "wf_json (JArr xs) = wf_items xs"
| "wf_json (JObj kvs) = (distinct (map fst kvs) \<and> wf_values kvs)"
| "wf_json JNull = True"
| "wf_json (JBool b) = True"
| "wf_json (JNum n) = True"
| "wf_json (JStr s) = True"
| "wf_items [] = True"
| "wf_items (x # xs) = (wf_json x \<and> wf_items xs)"
| "wf_values [] = True"
| "wf_values (kv # kvs) = (wf_json (snd kv) \<and> wf_values kvs)"

text \<open>The ids under a property that may be missing, and under the values of an object.\<close>

definition ids_opt :: "json option \<Rightarrow> int list" where
  "ids_opt v = (case v of None \<Rightarrow> [] | Some j \<Rightarrow> ids_of j)"

definition vals_ids :: "(string \<times> json) list \<Rightarrow> int set" where
  "vals_ids kvs = (\<Union>kv \<in> set kvs. set (ids_of (snd kv)))"

text \<open>\<^verbatim>\<open>reassignIds\<close> applied to the incoming test cases one after the other.\<close>

fun reassign_all :: "json list \<Rightarrow> merger \<Rightarrow> json list \<times> merger" where
  "reassign_all [] m = ([], m)"
| "reassign_all (t # ts) m =
     (case reassignIds t m of (p, m1) \<Rightarrow>
        (case reassign_all ts m1 of (ps, m2) \<Rightarrow> (p # ps, m2)))"

text \<open>The ids held in the root's \<^verbatim>\<open>items\<close> and \<^verbatim>\<open>children\<close> during the merge loop.\<close>

definition state_ids :: "merge_state \<Rightarrow> int multiset" where
  "state_ids st = mset (ids_of_items (root_items st)) + mset (ids_of_items (root_children st))"


text \<open>
  The table of inverse operators as the specification words it: five pairs, and
  \<^verbatim>\<open>notEqual\<close> for any other operator.
\<close>

definition table_inverse :: "string \<Rightarrow> string" where
  "table_inverse op =
     (if op = ''equal'' then ''notEqual'' else if op = ''notEqual'' then ''equal''
      else if op = ''greater'' then ''lessOrEqual'' else if op = ''lessOrEqual'' then ''greater''
      else if op = ''less'' then ''greaterOrEqual'' else if op = ''greaterOrEqual'' then ''less''
      else if op = ''contains'' then ''notContains'' else if op = ''notContains'' then ''contains''
      else if op = ''exists'' then ''notExists'' else if op = ''notExists'' then ''exists''
      else ''notEqual'')"

text \<open>A parameter, or an override, with the name \<open>n\<close>, and how many of a list have it.\<close>

definition named :: "string \<Rightarrow> json \<Rightarrow> bool" where
  "named n p \<longleftrightarrow> get_prop p ''name'' = Some (JStr n)"

definition named_count :: "string \<Rightarrow> json list \<Rightarrow> nat" where
  "named_count n ps = length (filter (named n) ps)"

text \<open>
  Two states of the converter with the same stored API items and the same indexes: they
  differ at most in the id counter.
\<close>

definition same_store :: "converter \<Rightarrow> converter \<Rightarrow> bool" where
  "same_store c c' \<longleftrightarrow>
     apiItems c' = apiItems c \<and> apiByPath c' = apiByPath c \<and> apiDefinitions c' = apiDefinitions c"

text \<open>
  The steps of a test case in the order \<^verbatim>\<open>findStepByNumber\<close> visits them: a step, then the
  steps below it in its \<^verbatim>\<open>children\<close> array, then the steps that follow it.
\<close>

function all_steps :: "json list \<Rightarrow> json list" where
  "all_steps [] = []"
| "all_steps (step # steps) = step # all_steps (array_children step) @ all_steps steps"
  by pat_completeness auto
termination
proof (relation "measure (size_list size)")
  fix step :: json and steps :: "json list"
  show "(array_children step, step # steps) \<in> measure (size_list size)"
    using array_children_size [of step] by simp
qed simp_all

text \<open>
  Two states of the converter with the same stored API items and test cases and the same
  indexes.
\<close>

definition same_source :: "converter \<Rightarrow> converter \<Rightarrow> bool" where
  "same_source c c' \<longleftrightarrow>
     same_store c c' \<and> testCases c' = testCases c \<and> testCasesById c' = testCasesById c"

text \<open>
  The steps of a document, when \<^verbatim>\<open>steps\<close> is an array. A step of the reverse converter
  has a handled type when its \<^verbatim>\<open>type\<close> is one of the five that \<^verbatim>\<open>convert\<close> and
  \<^verbatim>\<open>convertIfStep\<close> test for; it is emitted when, in addition, an \<^verbatim>\<open>http\<close> step has a
  truthy \<^verbatim>\<open>httpApiCase\<close>.
\<close>

definition steps_of :: "json \<Rightarrow> json list" where
  "steps_of document = (case get_prop document ''steps'' of Some (JArr steps) \<Rightarrow> steps | _ \<Rightarrow> [])"

definition handled_type :: "json \<Rightarrow> bool" where
  "handled_type step \<longleftrightarrow>
     get_prop step ''type''
       \<in> set (map (\<lambda>t. Some (JStr t)) [''http'', ''testCaseRef'', ''delay'', ''script'', ''if''])"

definition emitted :: "json \<Rightarrow> bool" where
  "emitted step \<longleftrightarrow>
     (if get_prop step ''type'' = Some (JStr ''http'') then truthy_opt (get_prop step ''httpApiCase'')
      else handled_type step)"

text \<open>
  \<open>steps_kept steps ys\<close>: the steps \<open>ys\<close> of a scenario are, one for one and in the same
  order, the emitted steps among \<open>steps\<close>. A scenario step \<open>y\<close> stands for the step it
  came from when it has the type of that step and the number \<^verbatim>\<open>step.number || 1\<close>, and,
  for an \<^verbatim>\<open>if\<close> step with an array of children, when its own children are in the same
  way the emitted ones among those children.
\<close>

function step_kept :: "json \<Rightarrow> json \<Rightarrow> bool"
  and steps_kept :: "json list \<Rightarrow> json list \<Rightarrow> bool"
where
  "step_kept step y \<longleftrightarrow>
     get_prop y ''type'' = get_prop step ''type''
     \<and> get_prop y ''number'' = Some (reverse_step_number step)
     \<and> (if get_prop step ''type'' = Some (JStr ''if'') then
          (case get_prop step ''children'' of
             Some (JArr children) \<Rightarrow>
               (case get_prop y ''children'' of
                  Some (JArr ys) \<Rightarrow> steps_kept children ys
                | _ \<Rightarrow> False)
           | _ \<Rightarrow> get_prop y ''children'' = None)
        else True)"
| "steps_kept [] ys \<longleftrightarrow> ys = []"
| "steps_kept (step # steps) ys \<longleftrightarrow>
     (if emitted step then
        (case ys of [] \<Rightarrow> False | y # rest \<Rightarrow> step_kept step y \<and> steps_kept steps rest)
      else steps_kept steps ys)"
  by pat_completeness auto
termination
proof (relation "measure (\<lambda>x. case x of
           Inl (step, y) \<Rightarrow> 2 * size step + 1
         | Inr (steps, ys) \<Rightarrow> 2 * size_list size steps)")
  fix step y :: json and children :: "json list" and x2 x3 ys
  assume "get_prop step ''children'' = Some x2" "x2 = JArr children"
  then have "array_children step = children" by (simp add: array_children_def)
  with array_children_size [of step]
  show "(Inr (children, ys), Inl (step, y))
          \<in> measure (\<lambda>x. case x of Inl (step, y) \<Rightarrow> 2 * size step + 1
                                   | Inr (steps, ys) \<Rightarrow> 2 * size_list size steps)"
    by simp
qed simp_all

declare step_kept.simps [simp del]
section \<open>Properties\<close>


subsection \<open>Reassigning ids\<close>

lemma reassign_seq_append:
  "reassign_seq (xs @ ys) s =
     (case reassign_seq xs s of (ws, s1) \<Rightarrow>
        (case reassign_seq ys s1 of (ws', s2) \<Rightarrow> (ws @ ws', s2)))"
  by (induction xs arbitrary: s) (auto split: prod.splits)

text \<open>
  The walk of \<^verbatim>\<open>reassignRecursive\<close> does to \<^verbatim>\<open>usedIds\<close> and \<^verbatim>\<open>idMap\<close> what the id step
  does on the sequence of the ids of the test case, and the ids of the copy are among
  the ids that the id step yields (those under a key \<^verbatim>\<open>__proto__\<close> are not in the copy).
\<close>

lemma reassign_refines:
  "mset (ids_of (fst (reassignRecursive j s))) \<subseteq># mset (fst (reassign_seq (ids_of j) s)) \<and>
   snd (reassignRecursive j s) = snd (reassign_seq (ids_of j) s)"
  "mset (ids_of_items (fst (reassignRecursive_items js s)))
     \<subseteq># mset (fst (reassign_seq (ids_of_items js) s)) \<and>
   snd (reassignRecursive_items js s) = snd (reassign_seq (ids_of_items js) s)"
  "mset (ids_of_entries (fst (reassignRecursive_entries kvs s)))
     \<subseteq># mset (fst (reassign_seq (ids_of_entries kvs) s)) \<and>
   snd (reassignRecursive_entries kvs s) = snd (reassign_seq (ids_of_entries kvs) s)"
proof (induction j s and js s and kvs s rule: reassignRecursive_reassignRecursive_items_reassignRecursive_entries.induct)
qed (auto simp: reassign_seq_append split: prod.splits
      intro: subset_mset.add_mono subset_mset.add_increasing)


lemma skip_used_fresh: "skip_used used n \<notin> set used"
proof (induction used n rule: skip_used.induct)
  case (1 used n)
  show ?case
  proof (cases "n \<in> set used")
    case True
    with 1 show ?thesis by (subst skip_used.simps) simp
  next
    case False
    then show ?thesis by (subst skip_used.simps) simp
  qed
qed

lemma set_set_add [simp]: "set (set_add v used) = insert v (set used)"
  by (auto simp: set_add_def)

lemma reassign_id_cases:
  assumes "reassign_id v (m, im) = (w, (m1, im1))"
  shows "(v \<notin> set (usedIds m) \<and> w = v \<and> im1 = im \<and> set (usedIds m1) = insert v (set (usedIds m)))
       \<or> (v \<in> set (usedIds m) \<and> im v = Some w \<and> im1 = im \<and> m1 = m)
       \<or> (v \<in> set (usedIds m) \<and> im v = None \<and> w \<notin> set (usedIds m) \<and> im1 = im(v \<mapsto> w)
            \<and> set (usedIds m1) = insert w (set (usedIds m)))"
  using assms skip_used_fresh [of "usedIds m" "nextId m"]
  by (auto simp: reassign_id_def getNextId_def Let_def split: if_splits option.splits)

lemma reassign_id_ok:
  assumes "reassign_id v s = (w, s1)" "st_ok s"
  shows "st_ok s1"
    and "set (usedIds (fst s1)) = insert w (set (usedIds (fst s)))"
    and "snd s \<subseteq>\<^sub>m snd s1"
    and "w \<noteq> v \<longleftrightarrow> v \<in> set (usedIds (fst s))"
    and "w \<noteq> v \<Longrightarrow> snd s1 v = Some w"
    and "dom (snd s1) \<subseteq> insert v (dom (snd s))"
    and "v \<notin> dom (snd s) \<Longrightarrow> w \<notin> set (usedIds (fst s))"
    and "w \<in> set (usedIds (fst s)) \<Longrightarrow> snd s v = Some w"
proof -
  obtain m im m1 im1 where s: "s = (m, im)" "s1 = (m1, im1)"
    by (cases s, cases s1) auto
  note c = reassign_id_cases [OF assms(1) [unfolded s]]
  show "st_ok s1" using c assms(2) unfolding s st_ok_def ran_def
    by (elim disjE conjE; simp; blast)
  show "set (usedIds (fst s1)) = insert w (set (usedIds (fst s)))"
    using c assms(2) unfolding s st_ok_def by (auto simp: ran_def)
  show "snd s \<subseteq>\<^sub>m snd s1" using c unfolding s by (auto simp: map_le_def)
  show "w \<noteq> v \<longleftrightarrow> v \<in> set (usedIds (fst s))"
    using c assms(2) unfolding s st_ok_def by auto
  show "w \<noteq> v \<Longrightarrow> snd s1 v = Some w" using c unfolding s by auto
  show "dom (snd s1) \<subseteq> insert v (dom (snd s))" using c unfolding s by auto
  show "v \<notin> dom (snd s) \<Longrightarrow> w \<notin> set (usedIds (fst s))" using c unfolding s by auto
  show "w \<in> set (usedIds (fst s)) \<Longrightarrow> snd s v = Some w" using c unfolding s by auto
qed

lemma reassign_seq_ok:
  "reassign_seq xs s = (ys, s') \<Longrightarrow> st_ok s \<Longrightarrow>
     st_ok s' \<and> set (usedIds (fst s')) = set (usedIds (fst s)) \<union> set ys \<and> snd s \<subseteq>\<^sub>m snd s'
     \<and> dom (snd s') \<subseteq> dom (snd s) \<union> set xs"
proof (induction xs arbitrary: s ys s')
  case Nil
  then show ?case by simp
next
  case (Cons v vs)
  obtain w s1 where h: "reassign_id v s = (w, s1)" by (cases "reassign_id v s")
  obtain ws s2 where t: "reassign_seq vs s1 = (ws, s2)" by (cases "reassign_seq vs s1")
  from Cons.prems h t have ys: "ys = w # ws" "s' = s2" by auto
  note o = reassign_id_ok [OF h Cons.prems(2)]
  from Cons.IH [OF t o(1)]
  have ih: "st_ok s2" "set (usedIds (fst s2)) = set (usedIds (fst s1)) \<union> set ws"
    "snd s1 \<subseteq>\<^sub>m snd s2" "dom (snd s2) \<subseteq> dom (snd s1) \<union> set vs" by auto
  have "snd s \<subseteq>\<^sub>m snd s2" using o(3) ih(3) by (rule map_le_trans)
  moreover have "dom (snd s2) \<subseteq> dom (snd s) \<union> set (v # vs)" using ih(4) o(6) by auto
  moreover have "set (usedIds (fst s2)) = set (usedIds (fst s)) \<union> set (w # ws)"
    using ih(2) o(2) by auto
  ultimately show ?case using ih(1) unfolding ys by simp
qed

lemma reassign_seq_distinct:
  "reassign_seq xs s = (ys, s') \<Longrightarrow> st_ok s \<Longrightarrow> distinct xs \<Longrightarrow> set xs \<inter> dom (snd s) = {} \<Longrightarrow>
   distinct ys \<and> set ys \<inter> set (usedIds (fst s)) = {}"
proof (induction xs arbitrary: s ys s')
  case Nil
  then show ?case by simp
next
  case (Cons v vs)
  obtain w s1 where h: "reassign_id v s = (w, s1)" by (cases "reassign_id v s")
  obtain ws s2 where t: "reassign_seq vs s1 = (ws, s2)" by (cases "reassign_seq vs s1")
  from Cons.prems h t have ys: "ys = w # ws" "s' = s2" by auto
  note o = reassign_id_ok [OF h Cons.prems(2)]
  have "set vs \<inter> dom (snd s1) = {}" using o(6) Cons.prems(3,4) by auto
  from Cons.IH [OF t o(1) _ this] Cons.prems(3)
  have ih: "distinct ws" "set ws \<inter> set (usedIds (fst s1)) = {}" by auto
  have "v \<notin> dom (snd s)" using Cons.prems(4) by auto
  from o(7) [OF this] ih o(2) show ?case unfolding ys by auto
qed

text \<open>
  Claim C2 (id reassignment is consistent per test case). The code does not do what the
  claim says when an id that is not yet used occurs twice in one test case. The first
  occurrence is kept and added to \<^verbatim>\<open>usedIds\<close>, but not recorded in \<^verbatim>\<open>idMap\<close>; the second
  occurrence then collides with the first and is replaced. On the test case
  \<^verbatim>\<open>{id: 5, steps: [{id: 5}]}\<close> and a merger that has no used id, the two occurrences of
  the original id 5 are written as 5 and 10000000.
\<close>

theorem reassignIds_splits_repeated_unused_id:
  "reassignIds (JObj [(''id'', JNum 5), (''steps'', JArr [JObj [(''id'', JNum 5)]])]) new_merger
   = (JObj [(''id'', JNum 5), (''steps'', JArr [JObj [(''id'', JNum 10000000)]])],
      \<lparr>usedIds = [5, 10000000], nextId = 10000001\<rparr>)"
  by (simp add: reassignIds_def reassign_id_def getNextId_def new_merger_def set_add_def
        skip_used.simps)
subsection \<open>Ids after a merge\<close>

lemma set_ids_of_entries:
  "set (ids_of_entries kvs) = {n. (''id'', JNum n) \<in> set kvs} \<union> vals_ids kvs"
proof (induction kvs)
  case Nil
  then show ?case by (simp add: vals_ids_def)
next
  case (Cons kv kvs)
  obtain k v where kv: "kv = (k, v)" by (cases kv)
  show ?case using Cons unfolding kv by (cases v) (auto simp: vals_ids_def)
qed

lemma id_entries_distinct:
  assumes "distinct (map fst kvs)"
  shows "{n. (''id'', JNum n) \<in> set kvs} = (case map_of kvs ''id'' of Some (JNum n) \<Rightarrow> {n} | _ \<Rightarrow> {})"
proof -
  have "\<And>n. ((''id'', JNum n) \<in> set kvs) = (map_of kvs ''id'' = Some (JNum n))"
    using assms by simp
  then show ?thesis by (auto split: option.splits json.splits)
qed

lemma collectUsedIds_set:
  "wf_json j \<Longrightarrow> set (collectUsedIds j used) = set used \<union> (set (ids_of j) - {0})"
  "wf_items js \<Longrightarrow> set (collectUsedIds_items js used) = set used \<union> (set (ids_of_items js) - {0})"
  "wf_values kvs \<Longrightarrow> set (collectUsedIds_values kvs used) = set used \<union> (vals_ids kvs - {0})"
proof (induction j used and js used and kvs used rule: collectUsedIds_collectUsedIds_items_collectUsedIds_values.induct)
  case (2 kvs used)
  then show ?case
    by (auto simp: set_ids_of_entries id_entries_distinct set_set_add split: option.splits json.splits)
qed (auto simp: vals_ids_def)

lemma ids_of_items_append [simp]: "ids_of_items (xs @ ys) = ids_of_items xs @ ids_of_items ys"
  by (induction xs) auto

lemma ids_of_entries_Cons: "ids_of_entries (kv # kvs) = ids_of_entries [kv] @ ids_of_entries kvs"
proof -
  obtain k v where kv: "kv = (k, v)" by (cases kv)
  show ?thesis unfolding kv by (cases v) auto
qed

lemma ids_of_entries_append: "ids_of_entries (xs @ ys) = ids_of_entries xs @ ids_of_entries ys"
proof (induction xs)
  case Nil
  then show ?case by simp
next
  case (Cons kv xs)
  show ?case
    using ids_of_entries_Cons [of kv "xs @ ys"] ids_of_entries_Cons [of kv xs] Cons by simp
qed

lemma ids_entry_other: "k \<noteq> ''id'' \<Longrightarrow> ids_of_entries [(k, v)] = ids_of v"
  by (cases v) auto

lemma ids_falsy: "\<not> truthy v \<Longrightarrow> ids_of v = []"
  by (cases v) auto

lemma ids_opt_falsy: "\<not> truthy_opt v \<Longrightarrow> ids_opt v = []"
  by (auto simp: truthy_opt_def ids_opt_def ids_falsy split: option.splits)

lemma ids_replicate_null [simp]: "ids_of_items (replicate n JNull) = []"
  by (induction n) auto

lemma mset_ids_update:
  "i < length xs \<Longrightarrow>
   mset (ids_of_items (xs[i := v])) + mset (ids_of (xs ! i)) = mset (ids_of_items xs) + mset (ids_of v)"
proof (induction xs arbitrary: i)
  case Nil
  then show ?case by simp
next
  case (Cons x xs)
  show ?case
  proof (cases i)
    case 0
    then show ?thesis by simp
  next
    case (Suc k)
    with Cons.prems have "k < length xs" by simp
    from Cons.IH [OF this] show ?thesis using Suc by (simp add: ac_simps)
  qed
qed

lemma mset_ids_items: "mset (ids_of_items xs) = (\<Sum>x\<in>#mset xs. mset (ids_of x))"
  by (induction xs) auto

lemma mset_ids_perm: "mset xs = mset ys \<Longrightarrow> mset (ids_of_items xs) = mset (ids_of_items ys)"
  by (simp add: mset_ids_items)

lemma mset_sort_items: "sort_items xs = Inr ys \<Longrightarrow> mset ys = mset xs"
  by (auto simp: sort_items_def split: if_splits)

lemma mset_ids_set_prop:
  "k \<noteq> ''id'' \<Longrightarrow>
   mset (ids_of_entries (set_prop k v kvs)) + mset (ids_opt (map_of kvs k)) =
   mset (ids_of_entries kvs) + mset (ids_of v)"
proof (induction kvs)
  case Nil
  then show ?case by (simp add: ids_opt_def ids_entry_other)
next
  case (Cons kv kvs)
  obtain k' v' where kv: "kv = (k', v')" by (cases kv)
  show ?case
  proof (cases "k' = k")
    case True
    then show ?thesis
      using Cons.prems ids_of_entries_Cons [of "(k, v)" kvs] ids_of_entries_Cons [of "(k, v')" kvs]
      unfolding kv by (simp add: ids_opt_def ids_entry_other)
  next
    case False
    then show ?thesis
      using Cons ids_of_entries_Cons [of "(k', v')" kvs]
        ids_of_entries_Cons [of "(k', v')" "set_prop k v kvs"]
      unfolding kv by (simp add: ac_simps)
  qed
qed

lemma map_of_set_prop_other: "k' \<noteq> k \<Longrightarrow> map_of (set_prop k v kvs) k' = map_of kvs k'"
  by (induction kvs) auto

lemma map_of_set_prop_same: "map_of (set_prop k v kvs) k = Some v"
  by (induction kvs) auto

lemma mset_ids_filter: "mset (ids_of_entries (filter P kvs)) \<subseteq># mset (ids_of_entries kvs)"
proof (induction kvs)
  case Nil
  then show ?case by simp
next
  case (Cons kv kvs)
  show ?case
    using Cons ids_of_entries_Cons [of kv kvs] ids_of_entries_Cons [of kv "filter P kvs"]
    by (auto intro: subset_mset.add_mono subset_mset.order_trans [OF _ mset_subset_eq_add_right])
qed

lemma mset_ids_delete_entries:
  "k \<noteq> ''id'' \<Longrightarrow>
   mset (ids_of_entries (filter (\<lambda>kv. fst kv \<noteq> k) kvs)) + mset (ids_opt (map_of kvs k))
     \<subseteq># mset (ids_of_entries kvs)"
proof (induction kvs)
  case Nil
  then show ?case by (simp add: ids_opt_def)
next
  case (Cons kv kvs)
  obtain k' v' where kv: "kv = (k', v')" by (cases kv)
  show ?case
  proof (cases "k' = k")
    case True
    then show ?thesis
      using Cons.prems ids_of_entries_Cons [of "(k, v')" kvs] mset_ids_filter [of "\<lambda>kv. fst kv \<noteq> k" kvs]
      unfolding kv by (simp add: ids_opt_def ids_entry_other)
  next
    case False
    then show ?thesis
      using Cons ids_of_entries_Cons [of "(k', v')" kvs]
        ids_of_entries_Cons [of "(k', v')" "filter (\<lambda>kv. fst kv \<noteq> k) kvs"]
      unfolding kv by (simp add: ac_simps)
  qed
qed

lemma mset_ids_delete_prop:
  "k \<noteq> ''id'' \<Longrightarrow> mset (ids_of (delete_prop k j)) + mset (ids_opt (get_prop j k)) \<subseteq># mset (ids_of j)"
  using mset_ids_delete_entries [of k]
  by (cases j) (auto simp: delete_prop_def get_prop_def ids_opt_def)

lemma find_folder_Some:
  "find_folder cs f = Inr (Some i) \<Longrightarrow> i < length cs \<and> same_value (get_prop (cs ! i) ''name'') (Some f)"
proof (induction cs arbitrary: i)
  case Nil
  then show ?case by simp
next
  case (Cons c cs)
  show ?case
  proof (cases "same_value (get_prop c ''name'') (Some f)")
    case True
    with Cons.prems show ?thesis by (auto split: if_splits)
  next
    case False
    with Cons.prems obtain j where "find_folder cs f = Inr (Some j)" "i = Suc j"
      by (auto split: if_splits sum.splits option.splits)
    with Cons.IH [of j] show ?thesis by simp
  qed
qed

lemma same_value_name_obj:
  "same_value (get_prop c ''name'') (Some f) \<Longrightarrow> \<exists>kvs. c = JObj kvs"
  by (cases c) (auto simp: same_value_def get_prop_def)

lemma mset_ids_with_items:
  "mset (ids_of (with_items (JObj kvs) xs)) + mset (ids_opt (map_of kvs ''items''))
     = mset (ids_of_entries kvs) + mset (ids_of_items xs)"
  using mset_ids_set_prop [of "''items''" "JArr xs" kvs] by (simp add: with_items_def)

lemma mset_ids_ensure_items: "mset (ids_of (ensure_items c)) = mset (ids_of c)"
proof (cases "truthy_opt (get_prop c ''items'')")
  case True
  then show ?thesis by (simp add: ensure_items_def)
next
  case False
  show ?thesis
  proof (cases c)
    case (JObj kvs)
    with False have "ids_opt (map_of kvs ''items'') = []"
      by (simp add: ids_opt_falsy get_prop_def)
    with mset_ids_set_prop [of "''items''" "JArr []" kvs] JObj False show ?thesis
      by (simp add: ensure_items_def)
  qed (simp_all add: ensure_items_def)
qed

lemma findOrCreateFolder_props:
  assumes "findOrCreateFolder children f = Inr (children1, pos)"
  shows "pos < length children1" and "\<exists>kvs. children1 ! pos = JObj kvs"
    and "mset (ids_of_items children1) \<subseteq># mset (ids_of_items children) + mset (ids_of f)"
proof -
  from assms obtain found where ff: "find_folder children f = Inr found"
    by (auto simp: findOrCreateFolder_def split: sum.splits)
  show "pos < length children1" "\<exists>kvs. children1 ! pos = JObj kvs"
    "mset (ids_of_items children1) \<subseteq># mset (ids_of_items children) + mset (ids_of f)"
  proof (atomize (full), cases found)
    case None
    with assms ff have "children1 = children @ [new_folder f]" "pos = length children"
      by (auto simp: findOrCreateFolder_def)
    then show "pos < length children1 \<and> (\<exists>kvs. children1 ! pos = JObj kvs) \<and>
        mset (ids_of_items children1) \<subseteq># mset (ids_of_items children) + mset (ids_of f)"
      by (cases f) (auto simp: new_folder_def)
  next
    case (Some i)
    with assms ff have c1: "children1 = children[i := ensure_items (children ! i)]" "pos = i"
      by (auto simp: findOrCreateFolder_def)
    from find_folder_Some [OF ff [unfolded Some]]
    have i: "i < length children" "same_value (get_prop (children ! i) ''name'') (Some f)" by auto
    from same_value_name_obj [OF i(2)] obtain kvs where kvs: "children ! i = JObj kvs" by auto
    have obj: "\<exists>kvs'. ensure_items (JObj kvs) = JObj kvs'" by (simp add: ensure_items_def)
    from mset_ids_update [OF i(1), of "ensure_items (children ! i)"] mset_ids_ensure_items [of "children ! i"]
    have "mset (ids_of_items children1) = mset (ids_of_items children)" unfolding c1 by simp
    then show "pos < length children1 \<and> (\<exists>kvs. children1 ! pos = JObj kvs) \<and>
        mset (ids_of_items children1) \<subseteq># mset (ids_of_items children) + mset (ids_of f)"
      using i(1) obj kvs unfolding c1 by simp
  qed
qed

lemma put_item_ids:
  assumes "put_item xs idx tc = (xs', idx')"
  shows "mset (ids_of_items xs') \<subseteq># mset (ids_of_items xs) + mset (ids_of tc)"
proof (cases "map_get idx (get_prop tc ''name'')")
  case None
  with assms show ?thesis by (auto simp: put_item_def)
next
  case (Some i)
  with assms have xs': "xs' = assign_index xs i tc" by (auto simp: put_item_def)
  show ?thesis
  proof (cases "i < length xs")
    case True
    from mset_ids_update [OF True, of tc]
    have "mset (ids_of_items (xs[i := tc])) \<subseteq># mset (ids_of_items xs) + mset (ids_of tc)"
      by (metis mset_subset_eq_add_left)
    then show ?thesis using True xs' by (simp add: assign_index_def)
  next
    case False
    then show ?thesis using xs' by (simp add: assign_index_def)
  qed
qed

lemma merge_into_root_ids:
  "state_ids (merge_into_root processed m' st) \<subseteq># state_ids st + mset (ids_of processed)"
proof -
  obtain xs' idx' where pi: "put_item (root_items st) (index_for (byFolder st) JNull) processed = (xs', idx')"
    by (cases "put_item (root_items st) (index_for (byFolder st) JNull) processed")
  from put_item_ids [OF pi] show ?thesis
    by (simp add: merge_into_root_def pi state_ids_def ac_simps)
qed

lemma merge_into_folder_ids:
  assumes "merge_into_folder f processed m' st = Inr st'"
  shows "state_ids st' \<subseteq># state_ids st + mset (ids_of f) + mset (ids_of processed)"
proof -
  from assms obtain children1 pos where fc: "findOrCreateFolder (root_children st) f = Inr (children1, pos)"
    by (auto simp: merge_into_folder_def split: sum.splits)
  note p = findOrCreateFolder_props [OF fc]
  from p(2) obtain kvs where kvs: "children1 ! pos = JObj kvs" by auto
  from assms fc kvs obtain xs where xs: "map_of kvs ''items'' = Some (JArr xs)"
    by (auto simp: merge_into_folder_def get_prop_def split: option.splits json.splits)
  obtain xs' idx' where pi: "put_item xs (index_for (byFolder st) f) processed = (xs', idx')"
    by (cases "put_item xs (index_for (byFolder st) f) processed")
  from assms fc kvs xs pi
  have st': "st' = \<lparr>root_items = root_items st,
                    root_children = children1[pos := with_items (JObj kvs) xs'],
                    byFolder = map_set (byFolder st) (Some f) idx', mg = m'\<rparr>"
    by (auto simp: merge_into_folder_def get_prop_def)
  have e1: "mset (ids_of (with_items (JObj kvs) xs')) + mset (ids_of_items xs)
      = mset (ids_of_entries kvs) + mset (ids_of_items xs')"
    using mset_ids_with_items [of kvs xs'] xs by (simp add: ids_opt_def)
  have e2: "mset (ids_of_items (children1[pos := with_items (JObj kvs) xs'])) + mset (ids_of_entries kvs)
      = mset (ids_of_items children1) + mset (ids_of (with_items (JObj kvs) xs'))"
    using mset_ids_update [OF p(1), of "with_items (JObj kvs) xs'"] kvs by simp
  note e3 = put_item_ids [OF pi]
  have "\<And>a. count (mset (ids_of_items (children1[pos := with_items (JObj kvs) xs']))) a
      \<le> count (mset (ids_of_items (root_children st))) a + count (mset (ids_of f)) a
        + count (mset (ids_of processed)) a"
  proof -
    fix a
    from e1 have c1: "count (mset (ids_of (with_items (JObj kvs) xs'))) a + count (mset (ids_of_items xs)) a
        = count (mset (ids_of_entries kvs)) a + count (mset (ids_of_items xs')) a"
      by (metis count_union)
    from e2 have c2: "count (mset (ids_of_items (children1[pos := with_items (JObj kvs) xs']))) a
        + count (mset (ids_of_entries kvs)) a
        = count (mset (ids_of_items children1)) a + count (mset (ids_of (with_items (JObj kvs) xs'))) a"
      by (metis count_union)
    from e3 have c3: "count (mset (ids_of_items xs')) a
        \<le> count (mset (ids_of_items xs)) a + count (mset (ids_of processed)) a"
      by (metis count_union mset_subset_eq_count)
    from p(3) have c4: "count (mset (ids_of_items children1)) a
        \<le> count (mset (ids_of_items (root_children st))) a + count (mset (ids_of f)) a"
      by (metis count_union mset_subset_eq_count)
    from c1 c2 c3 c4 show "count (mset (ids_of_items (children1[pos := with_items (JObj kvs) xs']))) a
      \<le> count (mset (ids_of_items (root_children st))) a + count (mset (ids_of f)) a
        + count (mset (ids_of processed)) a"
      by linarith
  qed
  then have "mset (ids_of_items (children1[pos := with_items (JObj kvs) xs']))
      \<subseteq># mset (ids_of_items (root_children st)) + mset (ids_of f) + mset (ids_of processed)"
    by (simp add: mset_subset_eqI)
  then show ?thesis unfolding st' state_ids_def
    by (simp add: ac_simps)
qed

lemma folder_name_ids:
  "mset (ids_of (folder_name p)) + mset (ids_of (delete_prop ''_folder'' p)) \<subseteq># mset (ids_of p)"
proof -
  have "mset (ids_of (folder_name p)) \<subseteq># mset (ids_opt (get_prop p ''_folder''))"
    by (auto simp: folder_name_def ids_opt_def truthy_opt_def split: option.splits)
  moreover have "mset (ids_of (delete_prop ''_folder'' p)) + mset (ids_opt (get_prop p ''_folder''))
      \<subseteq># mset (ids_of p)"
    by (rule mset_ids_delete_prop) simp
  ultimately have a: "mset (ids_of (folder_name p)) \<subseteq># mset (ids_opt (get_prop p ''_folder''))"
    and b: "mset (ids_of (delete_prop ''_folder'' p)) + mset (ids_opt (get_prop p ''_folder''))
      \<subseteq># mset (ids_of p)" by auto
  show ?thesis
  proof (rule mset_subset_eqI)
    fix a
    from mset_subset_eq_count [OF a, of a] mset_subset_eq_count [OF b, of a]
    show "count (mset (ids_of (folder_name p)) + mset (ids_of (delete_prop ''_folder'' p))) a
        \<le> count (mset (ids_of p)) a" by simp
  qed
qed

lemma merge_test_case_ids:
  assumes "merge_test_case data st = Inr st'" and r: "reassignIds data (mg st) = (p, m')"
  shows "state_ids st' \<subseteq># state_ids st + mset (ids_of p)"
proof (cases "truthy (folder_name p)")
  case True
  with assms have "merge_into_folder (folder_name p) (delete_prop ''_folder'' p) m' st = Inr st'"
    by (auto simp: merge_test_case_def split: if_splits)
  note a = merge_into_folder_ids [OF this] and b = folder_name_ids [of p]
  show ?thesis
  proof (rule mset_subset_eqI)
    fix x
    from mset_subset_eq_count [OF a, of x] mset_subset_eq_count [OF b, of x]
    show "count (state_ids st') x \<le> count (state_ids st + mset (ids_of p)) x" by simp
  qed
next
  case False
  with assms have st': "st' = merge_into_root (delete_prop ''_folder'' p) m' st"
    by (auto simp: merge_test_case_def split: if_splits)
  note a = merge_into_root_ids [of "delete_prop ''_folder'' p" m' st, folded st'] and b = folder_name_ids [of p]
  show ?thesis
  proof (rule mset_subset_eqI)
    fix x
    from mset_subset_eq_count [OF a, of x] mset_subset_eq_count [OF b, of x]
    show "count (state_ids st') x \<le> count (state_ids st + mset (ids_of p)) x" by simp
  qed
qed

lemma merge_test_case_mg:
  assumes "merge_test_case data st = Inr st'"
  shows "mg st' = snd (reassignIds data (mg st))"
proof -
  obtain p m' where r: "reassignIds data (mg st) = (p, m')" by (cases "reassignIds data (mg st)")
  have "\<And>f pr. merge_into_folder f pr m' st = Inr st' \<Longrightarrow> mg st' = m'"
    by (auto simp: merge_into_folder_def split: sum.splits prod.splits option.splits json.splits)
  moreover have "\<And>pr. mg (merge_into_root pr m' st) = m'"
    by (auto simp: merge_into_root_def split: prod.splits)
  ultimately show ?thesis using assms r
    by (auto simp: merge_test_case_def split: if_splits)
qed

lemma merge_test_cases_ids:
  "merge_test_cases T st = Inr st' \<Longrightarrow>
   mg st' = snd (reassign_all T (mg st)) \<and>
   state_ids st' \<subseteq># state_ids st + mset (ids_of_items (fst (reassign_all T (mg st))))"
proof (induction T arbitrary: st)
  case Nil
  then show ?case by simp
next
  case (Cons t T)
  from Cons.prems obtain st1 where s1: "merge_test_case t st = Inr st1"
    and rest: "merge_test_cases T st1 = Inr st'"
    by (auto split: sum.splits)
  obtain p m1 where r: "reassignIds t (mg st) = (p, m1)" by (cases "reassignIds t (mg st)")
  from merge_test_case_mg [OF s1] r have m1: "mg st1 = m1" by simp
  obtain ps m2 where ra: "reassign_all T m1 = (ps, m2)" by (cases "reassign_all T m1")
  from Cons.IH [OF rest] m1 ra
  have ih: "mg st' = m2" "state_ids st' \<subseteq># state_ids st1 + mset (ids_of_items ps)" by auto
  note a = merge_test_case_ids [OF s1 r] and b = ih(2)
  have "state_ids st' \<subseteq># state_ids st + mset (ids_of_items (p # ps))"
  proof (rule mset_subset_eqI)
    fix x
    from mset_subset_eq_count [OF a, of x] mset_subset_eq_count [OF b, of x]
    show "count (state_ids st') x \<le> count (state_ids st + mset (ids_of_items (p # ps))) x" by simp
  qed
  with ih(1) show ?case using r ra by simp
qed

lemma array_or_empty_ids:
  assumes "array_or_empty v = Inr xs"
  shows "mset (ids_of_items xs) = mset (ids_opt v)"
proof (cases "truthy_opt v")
  case True
  then show ?thesis using assms
    by (auto simp: array_or_empty_def ids_opt_def split: option.splits json.splits)
next
  case False
  then show ?thesis using assms ids_opt_falsy [OF False] by (simp add: array_or_empty_def)
qed

lemma initial_state_props:
  assumes "initial_state root m = Inr st0"
  shows "mg st0 = m"
    and "mset (ids_of_items (root_items st0)) = mset (ids_opt (map_of root ''items''))"
    and "mset (ids_of_items (root_children st0)) = mset (ids_opt (map_of root ''children''))"
proof -
  from assms obtain items children byF where
    i: "array_or_empty (map_of root ''items'') = Inr items" and
    c: "array_or_empty (map_of root ''children'') = Inr children" and
    st0: "st0 = \<lparr>root_items = items, root_children = children, byFolder = byF, mg = m\<rparr>"
    by (auto simp: initial_state_def split: sum.splits)
  show "mg st0 = m" by (simp add: st0)
  show "mset (ids_of_items (root_items st0)) = mset (ids_opt (map_of root ''items''))"
    using array_or_empty_ids [OF i] by (simp add: st0)
  show "mset (ids_of_items (root_children st0)) = mset (ids_opt (map_of root ''children''))"
    using array_or_empty_ids [OF c] by (simp add: st0)
qed

lemma array_items_Some: "array_items folder = Some xs \<Longrightarrow> \<exists>kvs. folder = JObj kvs \<and> map_of kvs ''items'' = Some (JArr xs)"
  by (cases folder) (auto simp: array_items_def get_prop_def split: option.splits json.splits)

lemma mset_ids_sort_folder: "sort_folder c = Inr c' \<Longrightarrow> mset (ids_of c') = mset (ids_of c)"
proof (cases "array_items c")
  case None
  assume "sort_folder c = Inr c'"
  with None show ?thesis by (simp add: sort_folder_def)
next
  case (Some xs)
  assume sf: "sort_folder c = Inr c'"
  from array_items_Some [OF Some] obtain kvs where kvs: "c = JObj kvs" "map_of kvs ''items'' = Some (JArr xs)"
    by auto
  from sf Some obtain ys where ys: "sort_items xs = Inr ys" and c': "c' = with_items (JObj kvs) ys"
    by (auto simp: sort_folder_def kvs(1) split: sum.splits)
  with mset_ids_with_items [of kvs ys] kvs(2) mset_ids_perm [OF mset_sort_items [OF ys]]
  show ?thesis by (simp add: kvs(1) ids_opt_def)
qed

lemma mset_ids_sort_folders:
  "sort_folders cs = Inr cs' \<Longrightarrow> mset (ids_of_items cs') = mset (ids_of_items cs)"
  by (induction cs arbitrary: cs') (auto split: sum.splits dest: mset_ids_sort_folder)

lemma store_sorted_ids:
  assumes "store_sorted root st = Inr root'"
  shows "mset (ids_of_entries root') + mset (ids_opt (map_of root ''items''))
     + mset (ids_opt (map_of root ''children''))
   = mset (ids_of_entries root) + state_ids st"
proof -
  from assms obtain items children where items: "sort_items (root_items st) = Inr items"
    and children: "sort_folders (root_children st) = Inr children"
    and root': "root' = set_prop ''children'' (JArr children) (set_prop ''items'' (JArr items) root)"
    by (auto simp: store_sorted_def split: sum.splits)
  define root1 where "root1 = set_prop ''items'' (JArr items) root"
  have a: "mset (ids_of_entries root1) + mset (ids_opt (map_of root ''items''))
      = mset (ids_of_entries root) + mset (ids_of_items (root_items st))"
    using mset_ids_set_prop [of "''items''" "JArr items" root]
      mset_ids_perm [OF mset_sort_items [OF items]]
    by (simp add: root1_def)
  have c: "map_of root1 ''children'' = map_of root ''children''"
    by (simp add: root1_def map_of_set_prop_other)
  have b: "mset (ids_of_entries root') + mset (ids_opt (map_of root ''children''))
      = mset (ids_of_entries root1) + mset (ids_of_items (root_children st))"
    using mset_ids_set_prop [of "''children''" "JArr children" root1] c
    by (simp add: root' root1_def mset_ids_sort_folders [OF children])
  show ?thesis
  proof (rule multiset_eqI)
    fix x
    from arg_cong [OF a, of "\<lambda>M. count M x"] arg_cong [OF b, of "\<lambda>M. count M x"]
    show "count (mset (ids_of_entries root') + mset (ids_opt (map_of root ''items''))
     + mset (ids_opt (map_of root ''children''))) x = count (mset (ids_of_entries root) + state_ids st) x"
      by (simp add: state_ids_def)
  qed
qed

lemma merge_root_ids:
  assumes "merge_root root T m = Inr (root', m')"
  shows "m' = snd (reassign_all T m)"
    and "mset (ids_of_entries root') \<subseteq># mset (ids_of_entries root) + mset (ids_of_items (fst (reassign_all T m)))"
proof -
  from assms obtain st0 st where i: "initial_state root m = Inr st0"
    and l: "merge_test_cases T st0 = Inr st" and r: "store_sorted root st = Inr root'" "m' = mg st"
    by (auto simp: merge_root_def split: sum.splits)
  note p = initial_state_props [OF i]
  note q = merge_test_cases_ids [OF l, unfolded p(1)]
  show "m' = snd (reassign_all T m)" using q r by simp
  show "mset (ids_of_entries root') \<subseteq># mset (ids_of_entries root) + mset (ids_of_items (fst (reassign_all T m)))"
  proof (rule mset_subset_eqI)
    fix x
    from arg_cong [OF store_sorted_ids [OF r(1)], of "\<lambda>M. count M x"]
      mset_subset_eq_count [OF conjunct2 [OF q], of x]
      arg_cong [OF p(2), of "\<lambda>M. count M x"] arg_cong [OF p(3), of "\<lambda>M. count M x"]
    show "count (mset (ids_of_entries root')) x
       \<le> count (mset (ids_of_entries root) + mset (ids_of_items (fst (reassign_all T m)))) x"
      by (simp add: r state_ids_def)
  qed
qed

lemma collections_of_ids:
  assumes "collections_of doc = JArr (JObj root # others)"
  shows "mset (ids_of_entries root) + mset (ids_of_items others) = mset (ids_opt (map_of doc ''apiTestCaseCollection''))"
proof (cases "truthy_opt (map_of doc ''apiTestCaseCollection'')")
  case False
  with assms show ?thesis by (auto simp: collections_of_def new_root_def ids_opt_falsy)
next
  case True
  then obtain v where v: "map_of doc ''apiTestCaseCollection'' = Some v"
    by (auto simp: truthy_opt_def split: option.splits)
  show ?thesis
  proof (cases "v = JArr []")
    case True
    with assms v \<open>truthy_opt _\<close> show ?thesis by (auto simp: collections_of_def new_root_def ids_opt_def)
  next
    case False
    with assms v \<open>truthy_opt _\<close> have "v = JArr (JObj root # others)"
      by (auto simp: collections_of_def split: json.splits list.splits)
    then show ?thesis by (simp add: v ids_opt_def)
  qed
qed

lemma mergeIntoApidog_ids:
  assumes "mergeIntoApidog C T m = Inr (D, m')"
  shows "mset (ids_of D) \<subseteq># mset (ids_of C)
           + mset (ids_of_items (fst (reassign_all T (m\<lparr>usedIds := collectUsedIds C (usedIds m)\<rparr>))))"
proof -
  from assms obtain doc where C: "C = JObj doc" by (cases C) (auto simp: mergeIntoApidog_def)
  from assms C obtain root others where co: "collections_of doc = JArr (JObj root # others)"
    by (auto simp: mergeIntoApidog_def split: json.splits list.splits)
  from assms C co obtain root' where
    mr: "merge_root root T (m\<lparr>usedIds := collectUsedIds C (usedIds m)\<rparr>) = Inr (root', m')"
    and D: "D = JObj (set_prop ''apiTestCaseCollection'' (JArr (JObj root' # others)) doc)"
    by (auto simp: mergeIntoApidog_def split: sum.splits)
  note a = merge_root_ids(2) [OF mr]
  note b = collections_of_ids [OF co]
  note c = mset_ids_set_prop [of "''apiTestCaseCollection''" "JArr (JObj root' # others)" doc]
  show ?thesis
  proof (rule mset_subset_eqI)
    fix x
    from mset_subset_eq_count [OF a, of x] arg_cong [OF b, of "\<lambda>M. count M x"]
      arg_cong [OF c, of "\<lambda>M. count M x"]
    show "count (mset (ids_of D)) x \<le> count (mset (ids_of C)
           + mset (ids_of_items (fst (reassign_all T (m\<lparr>usedIds := collectUsedIds C (usedIds m)\<rparr>))))) x"
      by (simp add: C D)
  qed
qed

lemma distinct_mset_subset:
  assumes "mset xs \<subseteq># mset ys" and "distinct ys"
  shows "distinct xs"
  unfolding distinct_count_atmost_1
proof (intro allI)
  fix a
  from assms(2) have "count (mset ys) a \<le> 1"
    unfolding distinct_count_atmost_1 by (auto split: if_splits)
  with mset_subset_eq_count [OF assms(1), of a] have le1: "count (mset xs) a \<le> 1" by simp
  show "count (mset xs) a = (if a \<in> set xs then 1 else 0)"
  proof (cases "a \<in> set xs")
    case True
    then have "a \<in># mset xs" by simp
    then have "0 < count (mset xs) a" by (simp only: count_greater_zero_iff)
    with le1 have "count (mset xs) a = 1" by linarith
    with True show ?thesis by (simp only: if_True)
  next
    case False
    then show ?thesis by (simp add: count_eq_zero_iff)
  qed
qed

lemma reassignIds_distinct:
  assumes "reassignIds t m = (p, m')" "distinct (ids_of t)"
  shows "distinct (ids_of p) \<and> set (ids_of p) \<inter> set (usedIds m) = {}
     \<and> set (usedIds m) \<union> set (ids_of p) \<subseteq> set (usedIds m')"
proof -
  obtain s' where r: "reassignRecursive t (m, Map.empty) = (p, s')" and m': "m' = fst s'"
    using assms by (auto simp: reassignIds_def split: prod.splits)
  obtain ws where seq: "reassign_seq (ids_of t) (m, Map.empty) = (ws, s')"
    and sub: "mset (ids_of p) \<subseteq># mset ws"
    using reassign_refines(1) [of t "(m, Map.empty)"] r
    by (cases "reassign_seq (ids_of t) (m, Map.empty)") simp
  have ok: "st_ok (m, Map.empty)" by (simp add: st_ok_def)
  from reassign_seq_distinct [OF seq ok assms(2)]
  have ws: "distinct ws" "set ws \<inter> set (usedIds m) = {}" by simp_all
  from reassign_seq_ok [OF seq ok] m'
  have used: "set (usedIds m') = set (usedIds m) \<union> set ws" by simp
  from set_mset_mono [OF sub] have subset: "set (ids_of p) \<subseteq> set ws" by simp
  from sub ws(1) have "distinct (ids_of p)" by (rule distinct_mset_subset)
  with subset ws(2) used show ?thesis by auto
qed

lemma reassign_all_distinct:
  "reassign_all T m = (P, m') \<Longrightarrow> \<forall>t\<in>set T. distinct (ids_of t) \<Longrightarrow>
   distinct (ids_of_items P) \<and> set (ids_of_items P) \<inter> set (usedIds m) = {}
     \<and> set (usedIds m) \<union> set (ids_of_items P) \<subseteq> set (usedIds m')"
proof (induction T arbitrary: m P m')
  case Nil
  then show ?case by simp
next
  case (Cons t T)
  obtain p m1 where r: "reassignIds t m = (p, m1)" by (cases "reassignIds t m")
  obtain ps m2 where ra: "reassign_all T m1 = (ps, m2)" by (cases "reassign_all T m1")
  from Cons.prems r ra have P: "P = p # ps" "m' = m2" by auto
  from reassignIds_distinct [OF r] Cons.prems(2)
  have a: "distinct (ids_of p)" "set (ids_of p) \<inter> set (usedIds m) = {}"
    "set (usedIds m) \<union> set (ids_of p) \<subseteq> set (usedIds m1)" by auto
  from Cons.IH [OF ra] Cons.prems(2)
  have b: "distinct (ids_of_items ps)" "set (ids_of_items ps) \<inter> set (usedIds m1) = {}"
    "set (usedIds m1) \<union> set (ids_of_items ps) \<subseteq> set (usedIds m2)" by auto
  show ?case unfolding P using a b by auto
qed

text \<open>
  C1, as stated, fails. The merger never rewrites the existing document and maps a
  colliding id to one replacement throughout a test case. First document: the incoming
  test case carries the id 5 twice (its own and its data set's), 5 is taken, and both
  occurrences become 10000000. Second document: the existing collection already holds
  the id 7 twice and is written back as it is.
\<close>

theorem merge_duplicate_ids_counterexample:
  "merge (JObj [(''apiTestCaseCollection'', JArr [JObj [(''name'', JStr ''Root''), (''children'', JArr []),
            (''items'', JArr [JObj [(''id'', JNum 5), (''name'', JStr ''Old''), (''steps'', JArr [])]])]])])
     [JObj [(''id'', JNum 5), (''name'', JStr ''New''), (''steps'', JArr []),
            (''apiTestDataSets'', JArr [JObj [(''id'', JNum 5), (''name'', JStr ''Data 1'')]])]]
   = Inr (JObj [(''apiTestCaseCollection'', JArr [JObj [(''name'', JStr ''Root''), (''children'', JArr []),
            (''items'', JArr [JObj [(''id'', JNum 5), (''name'', JStr ''Old''), (''steps'', JArr [])],
               JObj [(''id'', JNum 10000000), (''name'', JStr ''New''), (''steps'', JArr []),
                (''apiTestDataSets'', JArr [JObj [(''id'', JNum 10000000), (''name'', JStr ''Data 1'')]])]])]])])
   \<and>
   merge (JObj [(''apiCollection'', JArr [JObj [(''id'', JNum 7), (''name'', JStr ''Login'')]]),
                (''apiTestCaseCollection'', JArr [JObj [(''name'', JStr ''Root''), (''children'', JArr []),
            (''items'', JArr [JObj [(''id'', JNum 7), (''name'', JStr ''Old''), (''steps'', JArr [])]])]])]) []
   = Inr (JObj [(''apiCollection'', JArr [JObj [(''id'', JNum 7), (''name'', JStr ''Login'')]]),
                (''apiTestCaseCollection'', JArr [JObj [(''name'', JStr ''Root''), (''children'', JArr []),
            (''items'', JArr [JObj [(''id'', JNum 7), (''name'', JStr ''Old''), (''steps'', JArr [])]])]])])
   \<and>
   \<not> distinct (ids_of (JObj [(''apiTestCaseCollection'', JArr [JObj [(''name'', JStr ''Root''), (''children'', JArr []),
            (''items'', JArr [JObj [(''id'', JNum 5), (''name'', JStr ''Old''), (''steps'', JArr [])],
               JObj [(''id'', JNum 10000000), (''name'', JStr ''New''), (''steps'', JArr []),
                (''apiTestDataSets'', JArr [JObj [(''id'', JNum 10000000), (''name'', JStr ''Data 1'')]])]])]])]))
   \<and>
   \<not> distinct (ids_of (JObj [(''apiCollection'', JArr [JObj [(''id'', JNum 7), (''name'', JStr ''Login'')]]),
                (''apiTestCaseCollection'', JArr [JObj [(''name'', JStr ''Root''), (''children'', JArr []),
            (''items'', JArr [JObj [(''id'', JNum 7), (''name'', JStr ''Old''), (''steps'', JArr [])]])]])]))"
  by code_simp

text \<open>
  C1, amended. Let the existing collection document be a parsed document whose numeric
  ids are pairwise distinct and none of them 0, and let no incoming test case carry the
  same numeric id twice. Then, when the merge completes, the numeric ids of the merged
  document are pairwise distinct: no two objects carry the same numeric id.
\<close>

theorem merge_ids_unique:
  assumes "merge C T = Inr D"
    and "wf_json C" and "distinct (ids_of C)" and "0 \<notin> set (ids_of C)"
    and "\<forall>t \<in> set T. distinct (ids_of t)"
  shows "distinct (ids_of D)"
proof -
  from assms(1) obtain m' where m: "mergeIntoApidog C T new_merger = Inr (D, m')"
    by (auto simp: merge_def split: sum.splits)
  define m1 where "m1 = new_merger\<lparr>usedIds := collectUsedIds C (usedIds new_merger)\<rparr>"
  obtain P m2 where ra: "reassign_all T m1 = (P, m2)" by (cases "reassign_all T m1")
  have used: "set (usedIds m1) = set (ids_of C)"
    using collectUsedIds_set(1) [OF assms(2), of "[]"] assms(4)
    by (simp add: m1_def new_merger_def)
  from reassign_all_distinct [OF ra assms(5)] used
  have "distinct (ids_of_items P)" "set (ids_of_items P) \<inter> set (ids_of C) = {}" by auto
  with assms(3) have d: "distinct (ids_of C @ ids_of_items P)" by auto
  from mergeIntoApidog_ids [OF m] ra
  have "mset (ids_of D) \<subseteq># mset (ids_of C @ ids_of_items P)" by (simp add: m1_def)
  then have le: "\<And>a. count (mset (ids_of D)) a \<le> count (mset (ids_of C @ ids_of_items P)) a"
    by (rule mset_subset_eq_count)
  have le1: "\<And>a. count (mset (ids_of D)) a \<le> 1"
  proof -
    fix a
    from d have "count (mset (ids_of C @ ids_of_items P)) a \<le> 1"
      unfolding distinct_count_atmost_1 by (auto split: if_splits)
    with le [of a] show "count (mset (ids_of D)) a \<le> 1" by simp
  qed
  show ?thesis unfolding distinct_count_atmost_1
  proof (intro allI)
    fix a
    show "count (mset (ids_of D)) a = (if a \<in> set (ids_of D) then 1 else 0)"
    proof (cases "a \<in> set (ids_of D)")
      case True
      then have "a \<in># mset (ids_of D)" by simp
      then have "0 < count (mset (ids_of D)) a" by (simp only: count_greater_zero_iff)
      with le1 [of a] have "count (mset (ids_of D)) a = 1" by linarith
      with True show ?thesis by (simp only: if_True)
    next
      case False
      then show ?thesis by (simp add: count_eq_zero_iff)
    qed
  qed
qed

theorem merge_ids_unique_witness:
  "merge (JObj [(''apiTestCaseCollection'', JArr [JObj [(''name'', JStr ''Root''), (''children'', JArr []),
          (''items'', JArr [JObj [(''id'', JNum 1), (''name'', JStr ''Old''),
                                  (''steps'', JArr [JObj [(''id'', JNum 2)]])]])]])])
     [JObj [(''id'', JNum 1), (''name'', JStr ''A''), (''steps'', JArr [JObj [(''id'', JNum 2)]])],
      JObj [(''id'', JNum 1), (''name'', JStr ''B''), (''steps'', JArr [JObj [(''id'', JNum 3)]]),
            (''_folder'', JStr ''F'')]]
   = Inr (JObj [(''apiTestCaseCollection'', JArr [JObj [(''name'', JStr ''Root''),
          (''children'', JArr [JObj [(''name'', JStr ''F''), (''description'', JStr ''''),
             (''children'', JArr []),
             (''items'', JArr [JObj [(''id'', JNum 10000002), (''name'', JStr ''B''),
                                     (''steps'', JArr [JObj [(''id'', JNum 3)]])]])]]),
          (''items'', JArr [JObj [(''id'', JNum 1), (''name'', JStr ''Old''),
                                  (''steps'', JArr [JObj [(''id'', JNum 2)]])],
                            JObj [(''id'', JNum 10000000), (''name'', JStr ''A''),
                                  (''steps'', JArr [JObj [(''id'', JNum 10000001)]])]])]])])
   \<and> distinct (ids_of (JObj [(''apiTestCaseCollection'', JArr [JObj [(''name'', JStr ''Root''),
          (''children'', JArr [JObj [(''name'', JStr ''F''), (''description'', JStr ''''),
             (''children'', JArr []),
             (''items'', JArr [JObj [(''id'', JNum 10000002), (''name'', JStr ''B''),
                                     (''steps'', JArr [JObj [(''id'', JNum 3)]])]])]]),
          (''items'', JArr [JObj [(''id'', JNum 1), (''name'', JStr ''Old''),
                                  (''steps'', JArr [JObj [(''id'', JNum 2)]])],
                            JObj [(''id'', JNum 10000000), (''name'', JStr ''A''),
                                  (''steps'', JArr [JObj [(''id'', JNum 10000001)]])]])]])]))"
proof -
  let ?C = "JObj [(''apiTestCaseCollection'', JArr [JObj [(''name'', JStr ''Root''), (''children'', JArr []),
          (''items'', JArr [JObj [(''id'', JNum 1), (''name'', JStr ''Old''),
                                  (''steps'', JArr [JObj [(''id'', JNum 2)]])]])]])]"
  let ?T = "[JObj [(''id'', JNum 1), (''name'', JStr ''A''), (''steps'', JArr [JObj [(''id'', JNum 2)]])],
      JObj [(''id'', JNum 1), (''name'', JStr ''B''), (''steps'', JArr [JObj [(''id'', JNum 3)]]),
            (''_folder'', JStr ''F'')]]"
  let ?D = "JObj [(''apiTestCaseCollection'', JArr [JObj [(''name'', JStr ''Root''),
          (''children'', JArr [JObj [(''name'', JStr ''F''), (''description'', JStr ''''),
             (''children'', JArr []),
             (''items'', JArr [JObj [(''id'', JNum 10000002), (''name'', JStr ''B''),
                                     (''steps'', JArr [JObj [(''id'', JNum 3)]])]])]]),
          (''items'', JArr [JObj [(''id'', JNum 1), (''name'', JStr ''Old''),
                                  (''steps'', JArr [JObj [(''id'', JNum 2)]])],
                            JObj [(''id'', JNum 10000000), (''name'', JStr ''A''),
                                  (''steps'', JArr [JObj [(''id'', JNum 10000001)]])]])]])]"
  have m: "merge ?C ?T = Inr ?D" by code_simp
  have w: "wf_json ?C" by simp
  have d: "distinct (ids_of ?C)" by simp
  have z: "0 \<notin> set (ids_of ?C)" by simp
  have t: "\<forall>t \<in> set ?T. distinct (ids_of t)" by simp
  from merge_ids_unique [OF m w d z t] m show ?thesis by simp
qed


subsection \<open>Unresolved references and links\<close>

text \<open>
  Claim C8 (soft resolution errors never abort conversion). The converter creates its
  test case indexes only when it loads a source file. A scenario that names no
  \<^verbatim>\<open>source_apidog\<close> and holds a \<^verbatim>\<open>testCaseRef\<close> step with a \<^verbatim>\<open>ref_name\<close>, or a \<^verbatim>\<open>link\<close>
  step with a \<^verbatim>\<open>link_to\<close>, calls \<^verbatim>\<open>this.testCases.get\<close> on \<^verbatim>\<open>undefined\<close>: the conversion
  of the whole document ends with a \<^verbatim>\<open>TypeError\<close>, no reference record is emitted and the
  delay step that follows is not converted.
\<close>

theorem unresolved_target_without_source_aborts:
  "convert files
     (JObj [(''name'', JStr ''S''),
            (''steps'', JArr [JObj [(''type'', JStr ''testCaseRef''), (''number'', JNum 1),
                                    (''ref_name'', JStr ''Login'')],
                              JObj [(''type'', JStr ''delay''), (''number'', JNum 2)]])])
     (new_converter u) = Inl TypeError
   \<and> convert files
     (JObj [(''name'', JStr ''S''),
            (''steps'', JArr [JObj [(''type'', JStr ''link''), (''number'', JNum 1),
                                    (''link_to'', JStr ''Login'')],
                              JObj [(''type'', JStr ''delay''), (''number'', JNum 2)]])])
     (new_converter u) = Inl TypeError"
  by (simp add: convert_def get_prop_def truthy_opt_def list_prop_def convert_step_def
      convert_leaf_def js_or_def convertTestCaseRefStep_def lookup_ref_def
      convertLinkedSteps_def new_converter_def generateId_def Let_def)

subsection \<open>Conditional steps\<close>

lemma get_prop_JObj: "get_prop (JObj kvs) k = map_of kvs k"
  by (simp add: get_prop_def)

lemma collect_append:
  "collect f (xs @ ys) c =
     (case collect f xs c of
        Inl e \<Rightarrow> Inl e
      | Inr (outs1, c1) \<Rightarrow>
          (case collect f ys c1 of
             Inl e \<Rightarrow> Inl e
           | Inr (outs2, c2) \<Rightarrow> Inr (outs1 @ outs2, c2)))"
  by (induction xs arbitrary: c) (simp_all split: sum.splits prod.splits)

lemma convert_leaf_else:
  "get_prop child ''type'' = Some (JStr ''else'') \<Longrightarrow> convert_leaf child c = None"
  by (simp add: convert_leaf_def js_or_def truthy_opt_def)

lemma convert_if_child_else:
  assumes "get_prop child ''type'' = Some (JStr ''else'')"
    and "convert_if_child ps sn child c = Inr (outs, c')"
  shows "\<exists>n elseOuts. outs = [\<lambda>store. else_as_if ps sn child n (map (\<lambda>out. out store) elseOuts)]"
proof -
  have t: "js_or (get_prop child ''type'') (JStr ''http'') = JStr ''else''"
    using assms(1) by (simp add: js_or_def truthy_opt_def)
  from assms(2) show ?thesis
    by (auto simp: convert_if_child.simps [of ps sn child] convert_leaf_else [OF assms(1)] t
        split: if_splits sum.splits prod.splits)
qed

lemma invertOperator_table:
  assumes "js_String opv \<noteq> ''not_equal''" "js_String opv \<notin> set inherited_methods"
    "js_String opv \<noteq> ''__proto__''"
  shows "invertOperator opv = Some (JStr (table_inverse (js_String opv)))"
  using assms by (simp add: invertOperator_def operator_map_def table_inverse_def)

lemma else_as_if_props:
  "get_prop (else_as_if ps sn child n els) ''type'' = Some (JStr ''if'')"
  "get_path (else_as_if ps sn child n els) [''parameters'', ''keyVariable''] = get_prop ps ''keyVariable''"
  "get_path (else_as_if ps sn child n els) [''parameters'', ''valueVariable''] = get_prop ps ''valueVariable''"
  "get_path (else_as_if ps sn child n els) [''parameters'', ''operator'']
     = invertOperator (defined_or (get_prop ps ''operator'') JNull)"
  by (cases "get_prop ps ''keyVariable''"; cases "get_prop ps ''valueVariable''";
      cases "invertOperator (defined_or (get_prop ps ''operator'') JNull)";
      simp add: else_as_if_def get_prop_JObj obj_def List.map_filter_def)+

lemma convertIfStep_out:
  assumes "convertIfStep step c = Inr (out, c')"
    and "list_prop step ''children'' = Inr children"
  shows "\<exists>outs c1. collect (convert_if_child (if_parameters step) (step_number step)) children c
                     = Inr (outs, c1)
            \<and> get_prop (out store) ''children'' = Some (JArr (map (\<lambda>out. out store) outs))
            \<and> get_prop (out store) ''type'' = Some (JStr ''if'')
            \<and> get_prop (out store) ''parameters'' = Some (if_parameters step)"
  using assms
  by (auto simp: convertIfStep.simps [of step] get_prop_JObj split: if_splits sum.splits prod.splits)

text \<open>
  Claim C6 (else inversion), as the code has it. An \<^verbatim>\<open>else\<close> is handled as one of the
  children of its if step, after the children that come before it. When the operator of
  the emitted if node is not \<^verbatim>\<open>not_equal\<close> and its string form is not a property name that
  every object inherits, the else child is emitted as one if node with the same key
  variable and value variable and with the operator that the table gives, \<^verbatim>\<open>notEqual\<close>
  for an operator outside the table.
\<close>

theorem else_branch_inverts_operator:
  assumes conv: "convertIfStep step c = Inr (out, c')"
    and children: "list_prop step ''children'' = Inr (pre @ child # rest)"
    and else_child: "get_prop child ''type'' = Some (JStr ''else'')"
    and op: "get_path (out store) [''parameters'', ''operator''] = Some opv"
    and not_equal: "js_String opv \<noteq> ''not_equal''"
    and inherited: "js_String opv \<notin> set inherited_methods" "js_String opv \<noteq> ''__proto__''"
  shows "\<exists>outs1 c1 node outs2.
           collect (convert_if_child (if_parameters step) (step_number step)) pre c = Inr (outs1, c1)
         \<and> get_prop (out store) ''type'' = Some (JStr ''if'')
         \<and> get_prop (out store) ''children'' = Some (JArr (map (\<lambda>out. out store) outs1 @ node # outs2))
         \<and> get_prop node ''type'' = Some (JStr ''if'')
         \<and> get_path node [''parameters'', ''keyVariable'']
             = get_path (out store) [''parameters'', ''keyVariable'']
         \<and> get_path node [''parameters'', ''valueVariable'']
             = get_path (out store) [''parameters'', ''valueVariable'']
         \<and> get_path node [''parameters'', ''operator''] = Some (JStr (table_inverse (js_String opv)))"
proof -
  let ?ps = "if_parameters step" and ?sn = "step_number step"
  from convertIfStep_out [OF conv children, of store] obtain outs c1 where
    all: "collect (convert_if_child ?ps ?sn) (pre @ child # rest) c = Inr (outs, c1)"
    and ch: "get_prop (out store) ''children'' = Some (JArr (map (\<lambda>out. out store) outs))"
    and ty: "get_prop (out store) ''type'' = Some (JStr ''if'')"
    and ps: "get_prop (out store) ''parameters'' = Some ?ps"
    by blast
  from all obtain outs1 c2 outs2 c3 where
    pre: "collect (convert_if_child ?ps ?sn) pre c = Inr (outs1, c2)"
    and tl: "collect (convert_if_child ?ps ?sn) (child # rest) c2 = Inr (outs2, c3)"
    and outs: "outs = outs1 @ outs2"
    by (auto simp: collect_append split: sum.splits prod.splits)
  from tl obtain o1 c4 o2 c5 where
    hd: "convert_if_child ?ps ?sn child c2 = Inr (o1, c4)"
    and outs2: "outs2 = o1 @ o2"
    by (auto split: sum.splits prod.splits)
  from convert_if_child_else [OF else_child hd] obtain n elseOuts where
    o1: "o1 = [\<lambda>store. else_as_if ?ps ?sn child n (map (\<lambda>out. out store) elseOuts)]"
    by blast
  let ?node = "else_as_if ?ps ?sn child n (map (\<lambda>out. out store) elseOuts)"
  from op ps have opv: "get_prop ?ps ''operator'' = Some opv"
    by (cases "get_prop ?ps ''operator''") simp_all
  have inv: "get_path ?node [''parameters'', ''operator''] = Some (JStr (table_inverse (js_String opv)))"
    using invertOperator_table [OF not_equal inherited]
    by (simp only: else_as_if_props(4) opv defined_or_def option.simps)
  have "get_prop (out store) ''children''
          = Some (JArr (map (\<lambda>out. out store) outs1 @ ?node # map (\<lambda>out. out store) o2))"
    by (simp add: ch outs outs2 o1)
  moreover have "get_path ?node [''parameters'', ''keyVariable'']
             = get_path (out store) [''parameters'', ''keyVariable'']"
    by (simp only: else_as_if_props(2)) (simp add: ps split: option.splits)
  moreover have "get_path ?node [''parameters'', ''valueVariable'']
             = get_path (out store) [''parameters'', ''valueVariable'']"
    by (simp only: else_as_if_props(3)) (simp add: ps split: option.splits)
  ultimately show ?thesis
    using pre ty inv else_as_if_props(1) [of ?ps ?sn child n "map (\<lambda>out. out store) elseOuts"]
    by blast
qed

text \<open>
  The operator \<^verbatim>\<open>not_equal\<close> is outside the five pairs of the table, and its else branch
  gets the operator \<^verbatim>\<open>equal\<close>, not \<^verbatim>\<open>notEqual\<close>: the table of the code has an entry
  for it.
\<close>

theorem else_of_not_equal_counterexample:
  "(case convertIfStep
           (JObj [(''type'', JStr ''if''), (''number'', JNum 1),
                  (''condition'', JObj [(''variable'', JStr ''x''), (''operator'', JStr ''not_equal''),
                                        (''value'', JStr ''1'')]),
                  (''children'', JArr [JObj [(''type'', JStr ''else''), (''children'', JArr [])]])])
           (new_converter (\<lambda>n. [])) of
      Inr (out, c') \<Rightarrow> map (\<lambda>node. get_path node [''parameters'', ''operator''])
                         (array_children (out []))
    | Inl e \<Rightarrow> [])
   = [Some (JStr ''equal'')]
   \<and> table_inverse ''not_equal'' = ''notEqual''"
  by code_simp

text \<open>The example of the specification: \<^verbatim>\<open>x equal 1\<close> and an else block.\<close>

theorem else_branch_inverts_operator_witness:
  "\<exists>out c' (outs1 :: late list) node outs2.
      convertIfStep
        (JObj [(''type'', JStr ''if''), (''number'', JNum 1),
               (''condition'', JObj [(''variable'', JStr ''x''), (''operator'', JStr ''equal''),
                                     (''value'', JStr ''1'')]),
               (''children'', JArr [JObj [(''type'', JStr ''else''), (''children'', JArr [])]])])
        (new_converter (\<lambda>n. [])) = Inr (out, c')
    \<and> get_prop (out []) ''children'' = Some (JArr (map (\<lambda>out. out []) outs1 @ node # outs2))
    \<and> get_path (out []) [''parameters'', ''keyVariable''] = Some (JStr ''x'')
    \<and> get_path (out []) [''parameters'', ''valueVariable''] = Some (JStr ''1'')
    \<and> get_prop node ''type'' = Some (JStr ''if'')
    \<and> get_path node [''parameters'', ''keyVariable''] = Some (JStr ''x'')
    \<and> get_path node [''parameters'', ''valueVariable''] = Some (JStr ''1'')
    \<and> get_path node [''parameters'', ''operator''] = Some (JStr ''notEqual'')"
proof -
  let ?child = "JObj [(''type'', JStr ''else''), (''children'', JArr [])]"
  let ?step = "JObj [(''type'', JStr ''if''), (''number'', JNum 1),
               (''condition'', JObj [(''variable'', JStr ''x''), (''operator'', JStr ''equal''),
                                     (''value'', JStr ''1'')]),
               (''children'', JArr [?child])]"
  let ?c = "new_converter (\<lambda>n. [])"
  have children: "list_prop ?step ''children'' = Inr ([] @ ?child # [])"
    by (simp add: list_prop_def get_prop_JObj truthy_opt_def)
  have else_child: "get_prop ?child ''type'' = Some (JStr ''else'')"
    by (simp add: get_prop_JObj)
  have ps: "if_parameters ?step
              = JObj [(''keyVariable'', JStr ''x''), (''operator'', JStr ''equal''),
                      (''valueVariable'', JStr ''1'')]"
    by (simp add: if_parameters_def get_prop_JObj truthy_opt_def js_or_def)
  have "\<exists>out c'. convertIfStep ?step ?c = Inr (out, c')"
    by (simp add: convertIfStep.simps convert_if_child.simps convert_leaf_def list_prop_def
        get_prop_JObj truthy_opt_def js_or_def generateId_def split: prod.splits)
  then obtain out c' where conv: "convertIfStep ?step ?c = Inr (out, c')" by blast
  from convertIfStep_out [OF conv children, of "[]"]
  have out_ps: "get_prop (out []) ''parameters'' = Some (if_parameters ?step)" by blast
  have op: "get_path (out []) [''parameters'', ''operator''] = Some (JStr ''equal'')"
    by (simp add: out_ps ps get_prop_JObj)
  have kv: "get_path (out []) [''parameters'', ''keyVariable''] = Some (JStr ''x'')"
    and vv: "get_path (out []) [''parameters'', ''valueVariable''] = Some (JStr ''1'')"
    by (simp_all add: out_ps ps get_prop_JObj)
  have ne: "js_String (JStr ''equal'') \<noteq> ''not_equal''"
    and inh: "js_String (JStr ''equal'') \<notin> set inherited_methods"
      "js_String (JStr ''equal'') \<noteq> ''__proto__''"
    by (simp_all add: inherited_methods_def)
  from else_branch_inverts_operator [OF conv children else_child op ne inh] show ?thesis
    apply (elim exE conjE)
    subgoal for outs1 c1 node outs2
      apply (rule exI [where x = out])
      apply (rule exI [where x = c'])
      apply (rule exI [where x = outs1])
      apply (rule exI [where x = node])
      apply (rule exI [where x = outs2])
      apply (insert conv kv vv)
      apply (simp add: table_inverse_def del: get_path.simps)
      done
    done
qed


subsection \<open>Parameter overrides\<close>

lemma same_value_str: "same_value x (Some (JStr n)) \<longleftrightarrow> x = Some (JStr n)"
  by (cases x) (auto simp: same_value_def)

lemma find_param_None:
  "find_param ExactName n ps = Inr None \<Longrightarrow> p \<in> set ps \<Longrightarrow> \<not> same_value (get_prop p ''name'') n"
  by (induction ps) (auto simp: name_matches_def split: if_splits sum.splits option.splits bool.splits)

lemma find_param_Some:
  "find_param ExactName n ps = Inr (Some i) \<Longrightarrow>
     i < length ps \<and> same_value (get_prop (ps ! i) ''name'') n"
proof (induction ps arbitrary: i)
  case Nil
  then show ?case by simp
next
  case (Cons p ps)
  then show ?case
    by (cases i) (auto simp: name_matches_def split: if_splits sum.splits option.splits bool.splits)
qed

lemma filter_remove_nth:
  "i < length ps \<Longrightarrow>
   length (filter P (take i ps @ drop (Suc i) ps)) = length (filter P ps) - (if P (ps ! i) then 1 else 0)"
proof -
  assume "i < length ps"
  then have "ps = take i ps @ ps ! i # drop (Suc i) ps" by (simp add: id_take_nth_drop)
  then have "length (filter P ps) = length (filter P (take i ps @ ps ! i # drop (Suc i) ps))" by simp
  then show ?thesis by simp
qed

lemma update_found_named:
  assumes "update_found ps i [(''value'', v), (''enable'', e)] = Inr ps'" and "i < length ps"
  shows "map (named n) ps' = map (named n) ps"
proof -
  from assms obtain kvs where p: "ps ! i = JObj kvs"
    and ps': "ps' = ps[i := JObj (set_prop ''enable'' e (set_prop ''value'' v kvs))]"
    by (auto simp: update_found_def split: json.splits)
  have "named n (JObj (set_prop ''enable'' e (set_prop ''value'' v kvs))) = named n (ps ! i)"
    by (simp add: named_def get_prop_def p map_of_set_prop_other)
  then show ?thesis
    unfolding ps' by (simp add: map_update list_update_same_conv assms(2))
qed


lemma named_count_map: "map (named n) ps' = map (named n) ps \<Longrightarrow> named_count n ps' = named_count n ps"
proof -
  assume eq: "map (named n) ps' = map (named n) ps"
  have *: "named_count n xs = length (filter (\<lambda>b. b) (map (named n) xs))" for xs
    by (simp add: named_count_def filter_map comp_def)
  show ?thesis unfolding * eq ..
qed

lemma named_count_zero: "named_count n ps = 0 \<longleftrightarrow> (\<forall>p \<in> set ps. \<not> named n p)"
  by (simp add: named_count_def filter_empty_conv)

lemma named_count_nth: "i < length ps \<Longrightarrow> named n (ps ! i) \<Longrightarrow> 1 \<le> named_count n ps"
  using named_count_zero [of n ps] nth_mem [of i ps] by (cases "named_count n ps") auto

lemma named_new_param: "named n (new_param False k name v) \<longleftrightarrow> name = Some (JStr n)"
  by (cases name) (simp_all add: named_def new_param_def obj_def List.map_filter_def get_prop_def)

text \<open>What one round of the override loop does to the number of parameters named \<open>n\<close>.\<close>

lemma apply_override_cases:
  assumes ok: "apply_override ExactName False ov (ps, c) = Inr (ps', c')"
  shows "(get_prop ov ''name'' \<noteq> Some (JStr n) \<and> named_count n ps' \<le> named_count n ps)
       \<or> (get_prop ov ''name'' = Some (JStr n)
            \<and> (get_prop ov ''value'' = None \<or> get_prop ov ''value'' = Some JNull)
            \<and> named_count n ps' = named_count n ps - 1)
       \<or> (get_prop ov ''name'' = Some (JStr n)
            \<and> \<not> (get_prop ov ''value'' = None \<or> get_prop ov ''value'' = Some JNull)
            \<and> named_count n ps' = max 1 (named_count n ps))"
proof -
  let ?null = "get_prop ov ''value'' = None \<or> get_prop ov ''value'' = Some JNull"
  from ok obtain found where f: "find_param ExactName (get_prop ov ''name'') ps = Inr found"
    by (auto simp: apply_override_def split: if_splits sum.splits)
  show ?thesis
  proof (cases found)
    case None
    from find_param_None [OF f [unfolded None]]
    have nf: "get_prop ov ''name'' = Some (JStr n) \<Longrightarrow> named_count n ps = 0"
      by (auto simp: named_count_zero named_def same_value_str)
    show ?thesis
    proof (cases ?null)
      case True
      with ok f None have "ps' = ps" by (auto simp: apply_override_def split: if_splits)
      with True nf show ?thesis by auto
    next
      case False
      with ok f None obtain k where
        "ps' = ps @ [new_param False k (get_prop ov ''name'') (the (get_prop ov ''value''))]"
        by (auto simp: apply_override_def split: if_splits prod.splits)
      then have "named_count n ps' = named_count n ps + (if get_prop ov ''name'' = Some (JStr n) then 1 else 0)"
        by (simp add: named_count_def named_new_param)
      with False nf show ?thesis by auto
    qed
  next
    case (Some i)
    from find_param_Some [OF f [unfolded Some]]
    have i: "i < length ps" and m: "same_value (get_prop (ps ! i) ''name'') (get_prop ov ''name'')"
      by simp_all
    have hit: "get_prop ov ''name'' = Some (JStr n) \<Longrightarrow> 1 \<le> named_count n ps \<and> named n (ps ! i)"
      using m named_count_nth [OF i, of n] by (simp add: named_def same_value_str)
    show ?thesis
    proof (cases ?null)
      case True
      with ok f Some have ps': "ps' = take i ps @ drop (Suc i) ps"
        by (auto simp: apply_override_def split: if_splits)
      have "named_count n ps' = named_count n ps - (if named n (ps ! i) then 1 else 0)"
        unfolding ps' named_count_def by (rule filter_remove_nth [OF i])
      with True hit show ?thesis by auto
    next
      case False
      show ?thesis
      proof (cases "truthy (ps ! i)")
        case True
        with False ok f Some
        have "update_found ps i [(''value'', the (get_prop ov ''value'')), (''enable'', JBool True)]
                = Inr ps'"
          by (auto simp: apply_override_def split: if_splits sum.splits)
        from named_count_map [OF update_found_named [OF this i]]
        have "named_count n ps' = named_count n ps" .
        with False hit show ?thesis by auto
      next
        case falsy: False
        then have "get_prop (ps ! i) ''name'' = None"
          by (cases "ps ! i") (simp_all add: get_prop_def)
        with m have unnamed: "get_prop ov ''name'' = None" by (simp add: same_value_def)
        from False falsy ok f Some obtain k where
          "ps' = ps @ [new_param False k (get_prop ov ''name'') (the (get_prop ov ''value''))]"
          by (auto simp: apply_override_def split: if_splits prod.splits)
        then have "named_count n ps' = named_count n ps"
          by (simp add: named_count_def named_new_param unnamed)
        with unnamed show ?thesis by simp
      qed
    qed
  qed
qed

lemma fold_overrides_unnamed:
  assumes "fold_result (apply_override ExactName False) os (ps, c) = Inr (ps', c')"
    and "\<forall>ov \<in> set os. get_prop ov ''name'' \<noteq> Some (JStr n)"
  shows "named_count n ps' \<le> named_count n ps"
  using assms
proof (induction os arbitrary: ps c)
  case Nil
  then show ?case by simp
next
  case (Cons ov os)
  from Cons.prems(1) obtain ps1 c1 where
    one: "apply_override ExactName False ov (ps, c) = Inr (ps1, c1)"
    and rest: "fold_result (apply_override ExactName False) os (ps1, c1) = Inr (ps', c')"
    by (auto split: sum.splits)
  from apply_override_cases [OF one, of n] Cons.prems(2)
  have "named_count n ps1 \<le> named_count n ps" by auto
  moreover from Cons.IH [OF rest] Cons.prems(2) have "named_count n ps' \<le> named_count n ps1" by simp
  ultimately show ?case by simp
qed

lemma fold_overrides_at_most_one:
  assumes "fold_result (apply_override ExactName False) os (ps, c) = Inr (ps', c')"
    and "named_count n ps \<le> 1"
  shows "named_count n ps' \<le> 1"
  using assms
proof (induction os arbitrary: ps c)
  case Nil
  then show ?case by simp
next
  case (Cons ov os)
  from Cons.prems(1) obtain ps1 c1 where
    one: "apply_override ExactName False ov (ps, c) = Inr (ps1, c1)"
    and rest: "fold_result (apply_override ExactName False) os (ps1, c1) = Inr (ps', c')"
    by (auto split: sum.splits)
  from apply_override_cases [OF one, of n] Cons.prems(2)
  have "named_count n ps1 \<le> 1" by auto
  from Cons.IH [OF rest this] show ?case .
qed

lemma fold_result_append:
  "fold_result f (xs @ ys) s = (case fold_result f xs s of Inl e \<Rightarrow> Inl e | Inr s' \<Rightarrow> fold_result f ys s')"
  by (induction xs arbitrary: s) (simp_all split: sum.splits)

lemma fold_overrides_delete:
  assumes ok: "fold_result (apply_override ExactName False) (pre @ ov # post) (ps, c) = Inr (ps', c')"
    and one: "named_count n ps \<le> 1"
    and name: "get_prop ov ''name'' = Some (JStr n)"
    and null: "get_prop ov ''value'' = Some JNull"
    and post: "\<forall>ov' \<in> set post. get_prop ov' ''name'' \<noteq> Some (JStr n)"
  shows "named_count n ps' = 0"
proof -
  from ok obtain ps1 c1 ps2 c2 where
    a: "fold_result (apply_override ExactName False) pre (ps, c) = Inr (ps1, c1)"
    and b: "apply_override ExactName False ov (ps1, c1) = Inr (ps2, c2)"
    and c: "fold_result (apply_override ExactName False) post (ps2, c2) = Inr (ps', c')"
    by (auto simp: fold_result_append split: sum.splits)
  from fold_overrides_at_most_one [OF a one] have "named_count n ps1 \<le> 1" .
  with apply_override_cases [OF b, of n] name null have "named_count n ps2 = 0" by auto
  with fold_overrides_unnamed [OF c post] show ?thesis by simp
qed

lemma apply_step_overrides_query:
  "apply_step_overrides step ps c = Inr (ps', c') \<Longrightarrow>
   \<exists>c1. apply_overrides ExactName False (get_prop step ''query_params_override'') (p_query ps) c
           = Inr (p_query ps', c1)"
  by (auto simp: apply_step_overrides_def split: sum.splits prod.splits)

lemma step_wrapper_case: "get_prop (step_wrapper step bindId httpApiCase) ''httpApiCase'' = Some httpApiCase"
  by (simp add: step_wrapper_def get_prop_JObj)

lemma get_prop_obj_Some:
  "get_prop (obj ((k, Some v) # props)) k' = (if k' = k then Some v else get_prop (obj props) k')"
  by (simp add: obj_def List.map_filter_def get_prop_JObj)

lemma api_http_step_parameters:
  assumes "api_http_step step a c = Inr (out, c')"
  shows "\<exists>c3 ps c4. apply_step_overrides step (declared_parameters (api_of c a)) c3 = Inr (ps, c4)
           \<and> (\<forall>store. get_path (out store) [''httpApiCase'', ''parameters''] = Some (parameters_json ps))"
  using assms
  apply (simp add: api_http_step_def Let_def split: sum.splits prod.splits)
  apply (rule exI, rule exI, rule conjI, rule exI, assumption)
  apply (auto simp: step_wrapper_case get_prop_obj_Some)
  done


lemma get_path_append:
  "get_path j (ks @ ks') = (case get_path j ks of None \<Rightarrow> None | Some v \<Rightarrow> get_path v ks')"
  by (induction ks arbitrary: j) (auto split: option.splits)

text \<open>
  Claim C5 (deletion override semantics), with what it needs to hold. An http step
  resolves to an endpoint definition whose declared query parameters are an array with
  at most one parameter named \<open>foo\<close>. Its query overrides hold an entry with the name
  \<open>foo\<close> and the value null, and no later entry with that name. Then the query
  parameters of the converted step are an array without a parameter named \<open>foo\<close>.
\<close>

theorem null_override_removes_parameter:
  assumes conv: "convertHttpStep step c = Inr (out, c')"
    and resolved: "resolve_api c step = Some a" "truthy (api_of c a)"
    and declared: "declared (api_of c a) ''query'' = JArr ds"
    and one: "named_count foo ds \<le> 1"
    and overrides: "get_prop step ''query_params_override'' = Some (JArr (pre @ ov # post))"
    and name: "get_prop ov ''name'' = Some (JStr foo)"
    and null: "get_prop ov ''value'' = Some JNull"
    and post: "\<forall>ov' \<in> set post. get_prop ov' ''name'' \<noteq> Some (JStr foo)"
  shows "\<exists>qs. get_path (out store) [''httpApiCase'', ''parameters'', ''query''] = Some (JArr qs)
              \<and> (\<forall>q \<in> set qs. get_prop q ''name'' \<noteq> Some (JStr foo))"
proof -
  from conv resolved have "api_http_step step a c = Inr (out, c')"
    by (simp add: convertHttpStep_def split: if_splits)
  from api_http_step_parameters [OF this] obtain c3 ps c4 where
    so: "apply_step_overrides step (declared_parameters (api_of c a)) c3 = Inr (ps, c4)"
    and out: "get_path (out store) [''httpApiCase'', ''parameters''] = Some (parameters_json ps)"
    by blast
  from apply_step_overrides_query [OF so] obtain c5 where
    "apply_overrides ExactName False (Some (JArr (pre @ ov # post))) (JArr ds) c3 = Inr (p_query ps, c5)"
    by (auto simp: overrides declared declared_parameters_def)
  then obtain qs where
    fold: "fold_result (apply_override ExactName False) (pre @ ov # post) (ds, c3) = Inr (qs, c5)"
    and qs: "p_query ps = JArr qs"
    by (cases "pre @ ov # post") (auto simp: apply_overrides_def split: sum.splits prod.splits)
  from fold_overrides_delete [OF fold one name null post] have "named_count foo qs = 0" .
  then have "\<forall>q \<in> set qs. get_prop q ''name'' \<noteq> Some (JStr foo)"
    by (simp add: named_count_zero named_def)
  moreover have "get_path (out store) ([''httpApiCase'', ''parameters''] @ [''query'']) = Some (JArr qs)"
    by (simp only: get_path_append out option.case) (simp add: parameters_json_def get_prop_JObj qs)
  ultimately show ?thesis by simp
qed

text \<open>
  A definition that declares \<open>foo\<close> twice, as for a repeated query parameter: the null
  override removes the first one only and the converted step still has \<open>foo=baz\<close>.
\<close>

theorem null_override_twice_declared_counterexample:
  "(case convertHttpStep
           (JObj [(''name'', JStr ''Get''),
                  (''query_params_override'', JArr [JObj [(''name'', JStr ''foo''), (''value'', JNull)]])])
           (index_api_item
              (JObj [(''name'', JStr ''Get''),
                     (''api'', JObj [(''id'', JStr ''5''), (''method'', JStr ''get''), (''path'', JStr ''/x''),
                        (''parameters'', JObj [(''query'',
                           JArr [JObj [(''name'', JStr ''foo''), (''value'', JStr ''bar'')],
                                 JObj [(''name'', JStr ''foo''), (''value'', JStr ''baz'')]])])])])
              (Some (JStr ''Root'')) (new_converter (\<lambda>n. []))) of
      Inr (out, c') \<Rightarrow> get_path (out []) [''httpApiCase'', ''parameters'', ''query'']
    | Inl e \<Rightarrow> None)
   = Some (JArr [JObj [(''name'', JStr ''foo''), (''value'', JStr ''baz'')]])"
  by code_simp

text \<open>The example of the specification, \<open>foo=bar\<close>, next to a parameter that stays.\<close>

theorem null_override_removes_parameter_witness:
  "\<exists>out c' qs.
      convertHttpStep
        (JObj [(''name'', JStr ''Get''),
               (''query_params_override'', JArr [JObj [(''name'', JStr ''foo''), (''value'', JNull)]])])
        (index_api_item
           (JObj [(''name'', JStr ''Get''),
                  (''api'', JObj [(''id'', JStr ''5''), (''method'', JStr ''get''), (''path'', JStr ''/x''),
                     (''parameters'', JObj [(''query'',
                        JArr [JObj [(''name'', JStr ''foo''), (''value'', JStr ''bar'')],
                              JObj [(''name'', JStr ''keep''), (''value'', JStr ''1'')]])])])])
           (Some (JStr ''Root'')) (new_converter (\<lambda>n. [])))
        = Inr (out, c')
    \<and> get_path (out []) [''httpApiCase'', ''parameters'', ''query''] = Some (JArr qs)
    \<and> named_count ''foo'' qs = 0"
proof -
  let ?ov = "JObj [(''name'', JStr ''foo''), (''value'', JNull)]"
  let ?step = "JObj [(''name'', JStr ''Get''), (''query_params_override'', JArr [?ov])]"
  let ?ds = "[JObj [(''name'', JStr ''foo''), (''value'', JStr ''bar'')],
              JObj [(''name'', JStr ''keep''), (''value'', JStr ''1'')]]"
  let ?c = "index_api_item
           (JObj [(''name'', JStr ''Get''),
                  (''api'', JObj [(''id'', JStr ''5''), (''method'', JStr ''get''), (''path'', JStr ''/x''),
                     (''parameters'', JObj [(''query'', JArr ?ds)])])])
           (Some (JStr ''Root'')) (new_converter (\<lambda>n. []))"
  have "\<not> isl (convertHttpStep ?step ?c)" by code_simp
  then obtain out c' where conv: "convertHttpStep ?step ?c = Inr (out, c')"
    by (cases "convertHttpStep ?step ?c") auto
  have resolved: "resolve_api ?c ?step = Some 0" by code_simp
  have api: "truthy (api_of ?c 0)" by code_simp
  have declared: "declared (api_of ?c 0) ''query'' = JArr ?ds" by code_simp
  have one: "named_count ''foo'' ?ds \<le> 1" by code_simp
  have overrides: "get_prop ?step ''query_params_override'' = Some (JArr ([] @ ?ov # []))" by code_simp
  have name: "get_prop ?ov ''name'' = Some (JStr ''foo'')" by code_simp
  have null: "get_prop ?ov ''value'' = Some JNull" by code_simp
  have post: "\<forall>ov' \<in> set []. get_prop ov' ''name'' \<noteq> Some (JStr ''foo'')" by simp
  from null_override_removes_parameter [OF conv resolved api declared one overrides name null post, of "[]"]
  obtain qs where "get_path (out []) [''httpApiCase'', ''parameters'', ''query''] = Some (JArr qs)"
    and "named_count ''foo'' qs = 0"
    by (auto simp: named_count_zero named_def simp del: get_path.simps)
  with conv show ?thesis by blast
qed


subsection \<open>The stored endpoint definitions\<close>

lemma same_store_refl: "same_store c c"
  by (simp add: same_store_def)

lemma same_store_trans: "same_store c c1 \<Longrightarrow> same_store c1 c2 \<Longrightarrow> same_store c c2"
  by (simp add: same_store_def)

lemma generateId_store: "generateId c = (n, c') \<Longrightarrow> same_store c c'"
  by (auto simp: generateId_def same_store_def)

lemma response_id_store: "response_id step api c = Inr (r, c') \<Longrightarrow> same_store c c'"
  by (auto simp: response_id_def same_store_refl generateId_store
      split: if_splits sum.splits list.splits prod.splits)

lemma apply_override_store:
  "apply_override mode cookie ov s = Inr s' \<Longrightarrow> same_store (snd s) (snd s')"
  by (auto simp: apply_override_def same_store_refl generateId_store
      split: if_splits sum.splits option.splits prod.splits)

lemma fold_override_store:
  "fold_result (apply_override mode cookie) os s = Inr s' \<Longrightarrow> same_store (snd s) (snd s')"
proof (induction os arbitrary: s)
  case Nil
  then show ?case by (simp add: same_store_refl)
next
  case (Cons ov os)
  then show ?case
    by (auto split: sum.splits intro: same_store_trans dest: apply_override_store)
qed

lemma apply_overrides_store:
  "apply_overrides mode cookie overrides params c = Inr (params', c') \<Longrightarrow> same_store c c'"
  by (auto simp: apply_overrides_def same_store_refl simp del: fold_result.simps
      split: option.splits json.splits list.splits sum.splits prod.splits
      dest!: fold_override_store)

lemma apply_user_agent_store:
  "apply_user_agent ua header c = Inr (header', c') \<Longrightarrow> same_store c c'"
  by (auto simp: apply_user_agent_def same_store_refl generateId_store
      split: if_splits json.splits sum.splits option.splits prod.splits)

lemma apply_step_overrides_store:
  "apply_step_overrides step ps c = Inr (ps', c') \<Longrightarrow> same_store c c'"
  by (auto simp: apply_step_overrides_def split: sum.splits prod.splits
      dest!: apply_overrides_store apply_user_agent_store) (simp add: same_store_def)

lemma apply_form_field_store:
  "apply_form_field f s = Inr s' \<Longrightarrow> same_store (snd (snd s)) (snd (snd s'))"
  by (auto simp: apply_form_field_def same_store_refl generateId_store
      split: if_splits sum.splits option.splits prod.splits)

lemma fold_form_field_store:
  "fold_result apply_form_field fs s = Inr s' \<Longrightarrow> same_store (snd (snd s)) (snd (snd s'))"
proof (induction fs arbitrary: s)
  case Nil
  then show ?case by (simp add: same_store_refl)
next
  case (Cons f fs)
  then show ?case
    by (auto split: sum.splits intro: same_store_trans dest: apply_form_field_store)
qed

lemma apply_form_data_store:
  "apply_form_data fs params c = Inr (params', c') \<Longrightarrow> same_store c c'"
  by (auto simp: apply_form_data_def same_store_refl simp del: fold_result.simps
      split: if_splits json.splits sum.splits prod.splits dest!: fold_form_field_store)


lemma get_prop_set_path_other:
  "k \<noteq> k0 \<Longrightarrow> get_prop (set_path (k0 # ks) v j) k = get_prop j k"
  by (cases j) (auto simp: get_prop_def map_of_set_prop_other split: option.splits)

lemma truthy_set_path: "truthy (set_path (k # ks) v j) = truthy j"
  by (cases j) (auto split: option.splits)

lemma set_path_primitive: "\<not> truthy j \<Longrightarrow> set_path (k # ks) v j = j"
  by (cases j) auto

lemma get_prop_set_path_same:
  "get_prop (set_path (k # ks) v j) k = map_option (set_path ks v) (get_prop j k)"
  by (cases j) (auto simp: get_prop_def map_of_set_prop_same split: option.splits)

lemma api_after_write:
  "js_or (get_prop (set_path (''api'' # k # ks) v item) ''api'') JNull
     = set_path (k # ks) v (js_or (get_prop item ''api'') JNull)"
  by (cases "get_prop item ''api''")
     (simp_all add: get_prop_set_path_same js_or_def truthy_opt_def truthy_set_path
        set_path_primitive del: set_path.simps)

lemma api_of_after_write:
  assumes "apiItems c' = (apiItems c)[a := set_path [''api'', ''requestBody'', ''parameters''] v (apiItems c ! a)]"
  shows "api_of c' b = api_of c b
       \<or> api_of c' b = set_path [''requestBody'', ''parameters''] v (api_of c b)"
proof (cases "b = a \<and> a < length (apiItems c)")
  case True
  then show ?thesis by (simp add: api_of_def assms api_after_write del: set_path.simps)
next
  case False
  then have "apiItems c' ! b = apiItems c ! b"
    unfolding assms
    by (cases "a < length (apiItems c)") (auto simp: list_update_beyond simp del: set_path.simps)
  then show ?thesis by (simp add: api_of_def)
qed

lemma api_http_step_states:
  assumes "api_http_step step a c = Inr (out, c')"
  shows "\<exists>r c1 n c2 fs ps0 bp c3 c4 ps.
           response_id step (api_of c a) c = Inr (r, c1) \<and> generateId c1 = (n, c2)
         \<and> apply_form_data fs ps0 c2 = Inr (bp, c3)
         \<and> apply_step_overrides step (declared_parameters (api_of c a)) c4 = Inr (ps, c')
         \<and> (c4 = c3 \<or> c4 = c3\<lparr>apiItems := (apiItems c3)
                          [a := set_path [''api'', ''requestBody'', ''parameters''] bp
                                  (apiItems c3 ! a)]\<rparr>)"
  using assms
  apply (simp add: api_http_step_def Let_def split: sum.splits prod.splits del: set_path.simps)
  apply (intro exI conjI)
      apply assumption+
  apply (simp del: set_path.simps)
  done

lemma api_http_step_store:
  assumes "api_http_step step a c = Inr (out, c')"
  shows "apiByPath c' = apiByPath c \<and> apiDefinitions c' = apiDefinitions c
       \<and> (apiItems c' = apiItems c
          \<or> (\<exists>v. apiItems c' = (apiItems c)
                  [a := set_path [''api'', ''requestBody'', ''parameters''] v (apiItems c ! a)]))"
proof -
  from api_http_step_states [OF assms] obtain r c1 n c2 fs ps0 bp c3 c4 ps where
    1: "response_id step (api_of c a) c = Inr (r, c1)" and 2: "generateId c1 = (n, c2)"
    and 3: "apply_form_data fs ps0 c2 = Inr (bp, c3)"
    and 4: "apply_step_overrides step (declared_parameters (api_of c a)) c4 = Inr (ps, c')"
    and 5: "c4 = c3 \<or> c4 = c3\<lparr>apiItems := (apiItems c3)
                          [a := set_path [''api'', ''requestBody'', ''parameters''] bp
                                  (apiItems c3 ! a)]\<rparr>"
    by blast
  from response_id_store [OF 1] generateId_store [OF 2] apply_form_data_store [OF 3]
  have c3: "same_store c c3" by (simp add: same_store_def)
  from 5 show ?thesis
  proof
    assume "c4 = c3"
    with apply_step_overrides_store [OF 4] c3 show ?thesis by (simp add: same_store_def)
  next
    assume "c4 = c3\<lparr>apiItems := (apiItems c3)
                          [a := set_path [''api'', ''requestBody'', ''parameters''] bp
                                  (apiItems c3 ! a)]\<rparr>"
    with apply_step_overrides_store [OF 4] c3
    have "apiItems c' = (apiItems c)
            [a := set_path [''api'', ''requestBody'', ''parameters''] bp (apiItems c ! a)]"
      and "apiByPath c' = apiByPath c" and "apiDefinitions c' = apiDefinitions c"
      by (simp_all add: same_store_def del: set_path.simps)
    then show ?thesis by blast
  qed
qed

lemma createBasicHttpStep_store:
  assumes "createBasicHttpStep step c = Inr (out, c')"
  shows "same_store c c'"
  using assms
  apply (simp add: createBasicHttpStep_def Let_def split: json.splits sum.splits prod.splits if_splits)
  apply (auto simp: same_store_def
      dest!: generateId_store apply_form_data_store apply_step_overrides_store)
  done


lemma convertHttpStep_api_of:
  assumes "convertHttpStep step c = Inr (out, c')"
  shows "apiByPath c' = apiByPath c \<and> apiDefinitions c' = apiDefinitions c
       \<and> truthy (api_of c' b) = truthy (api_of c b)
       \<and> (k \<noteq> ''requestBody'' \<longrightarrow> get_prop (api_of c' b) k = get_prop (api_of c b) k)"
proof -
  from assms have "same_store c c' \<or> (\<exists>a. api_http_step step a c = Inr (out, c'))"
    by (auto simp: convertHttpStep_def split: if_splits option.splits
        dest: createBasicHttpStep_store)
  then show ?thesis
  proof
    assume "same_store c c'"
    then show ?thesis by (simp add: same_store_def api_of_def)
  next
    assume "\<exists>a. api_http_step step a c = Inr (out, c')"
    then obtain a where "api_http_step step a c = Inr (out, c')" ..
    from api_http_step_store [OF this]
    have idx: "apiByPath c' = apiByPath c" "apiDefinitions c' = apiDefinitions c"
      and items: "apiItems c' = apiItems c
          \<or> (\<exists>v. apiItems c' = (apiItems c)
                  [a := set_path [''api'', ''requestBody'', ''parameters''] v (apiItems c ! a)])"
      by blast+
    from items have "api_of c' b = api_of c b
       \<or> (\<exists>v. api_of c' b = set_path [''requestBody'', ''parameters''] v (api_of c b))"
    proof (elim disjE exE)
      assume "apiItems c' = apiItems c"
      then show ?thesis by (simp add: api_of_def)
    next
      fix v
      assume "apiItems c' = (apiItems c)
                  [a := set_path [''api'', ''requestBody'', ''parameters''] v (apiItems c ! a)]"
      from api_of_after_write [OF this, of b] show ?thesis by blast
    qed
    then have "truthy (api_of c' b) = truthy (api_of c b)"
      and "k \<noteq> ''requestBody'' \<Longrightarrow> get_prop (api_of c' b) k = get_prop (api_of c b) k"
      by (auto simp: truthy_set_path get_prop_set_path_other simp del: set_path.simps)
    with idx show ?thesis by blast
  qed
qed

text \<open>
  Claim C9 (the conversion of an http step does not change the declared parameters).
  Whatever a conversion of an http step writes to the stored API items, it leaves the
  indexes and, for every stored item, the declared query, header, cookie and path
  parameters as they were; so the next step resolves to the same item as it would have
  before, and starts from the same declared parameters.
\<close>

theorem http_conversion_keeps_declared_parameters:
  assumes "convertHttpStep step c = Inr (out, c')"
  shows "declared_parameters (api_of c' b) = declared_parameters (api_of c b)
       \<and> resolve_api c' next_step = resolve_api c next_step"
proof -
  note frame = convertHttpStep_api_of [OF assms]
  have idx: "apiByPath c' = apiByPath c" "apiDefinitions c' = apiDefinitions c"
    using frame by blast+
  have tr: "truthy (api_of c' x) = truthy (api_of c x)" for x
    using frame [of x] by blast
  have path: "get_prop (api_of c' x) ''path'' = get_prop (api_of c x) ''path''" for x
    using frame [of x "''path''"] by simp
  have meth: "get_prop (api_of c' x) ''method'' = get_prop (api_of c x) ''method''" for x
    using frame [of x "''method''"] by simp
  have params: "get_prop (api_of c' x) ''parameters'' = get_prop (api_of c x) ''parameters''" for x
    using frame [of x "''parameters''"] by simp
  have "declared_parameters (api_of c' b) = declared_parameters (api_of c b)"
    by (simp add: declared_parameters_def declared_def params)
  moreover have "resolve_api c' next_step = resolve_api c next_step"
    by (simp add: resolve_api_def findApiByMethodAndPath_def findApiByNameAndPath_def
        findApiByName_def by_name_and_path_def idx tr path meth Let_def
        cong: option.case_cong api_entry.case_cong if_cong)
  ultimately show ?thesis ..
qed


text \<open>
  A step that overrides the declared query parameter \<open>foo\<close> and a form field of the
  request body: the converted step has the new value, the definition still declares
  \<open>foo=bar\<close>.
\<close>

theorem http_conversion_keeps_declared_parameters_witness:
  "\<exists>out c'.
      convertHttpStep
        (JObj [(''name'', JStr ''Get''),
               (''query_params_override'', JArr [JObj [(''name'', JStr ''foo''), (''value'', JStr ''new'')]]),
               (''request_form_data_override'', JArr [JObj [(''name'', JStr ''f''), (''value'', JStr ''v'')]])])
        (index_api_item
           (JObj [(''name'', JStr ''Get''),
                  (''api'', JObj [(''id'', JStr ''5''), (''method'', JStr ''get''), (''path'', JStr ''/x''),
                     (''parameters'', JObj [(''query'',
                        JArr [JObj [(''name'', JStr ''foo''), (''value'', JStr ''bar'')]])]),
                     (''requestBody'', JObj [(''parameters'',
                        JArr [JObj [(''name'', JStr ''f''), (''value'', JStr ''old'')]])])])])
           (Some (JStr ''Root'')) (new_converter (\<lambda>n. [])))
        = Inr (out, c')
    \<and> get_path (out (apiItems c')) [''httpApiCase'', ''parameters'', ''query'']
        = Some (JArr [JObj [(''name'', JStr ''foo''), (''value'', JStr ''new''), (''enable'', JBool True)]])
    \<and> p_query (declared_parameters (api_of c' 0))
        = JArr [JObj [(''name'', JStr ''foo''), (''value'', JStr ''bar'')]]
    \<and> resolve_api c' (JObj [(''name'', JStr ''Get'')]) = Some 0"
proof -
  let ?step = "JObj [(''name'', JStr ''Get''),
               (''query_params_override'', JArr [JObj [(''name'', JStr ''foo''), (''value'', JStr ''new'')]]),
               (''request_form_data_override'', JArr [JObj [(''name'', JStr ''f''), (''value'', JStr ''v'')]])]"
  let ?c = "index_api_item
           (JObj [(''name'', JStr ''Get''),
                  (''api'', JObj [(''id'', JStr ''5''), (''method'', JStr ''get''), (''path'', JStr ''/x''),
                     (''parameters'', JObj [(''query'',
                        JArr [JObj [(''name'', JStr ''foo''), (''value'', JStr ''bar'')]])]),
                     (''requestBody'', JObj [(''parameters'',
                        JArr [JObj [(''name'', JStr ''f''), (''value'', JStr ''old'')]])])])])
           (Some (JStr ''Root'')) (new_converter (\<lambda>n. []))"
  have "\<not> isl (convertHttpStep ?step ?c)" by code_simp
  then obtain out c' where conv: "convertHttpStep ?step ?c = Inr (out, c')"
    by (cases "convertHttpStep ?step ?c") auto
  have query: "(case convertHttpStep ?step ?c of
                  Inr (out, c') \<Rightarrow> get_path (out (apiItems c')) [''httpApiCase'', ''parameters'', ''query'']
                | Inl e \<Rightarrow> None)
        = Some (JArr [JObj [(''name'', JStr ''foo''), (''value'', JStr ''new''), (''enable'', JBool True)]])"
    by code_simp
  have before: "p_query (declared_parameters (api_of ?c 0))
        = JArr [JObj [(''name'', JStr ''foo''), (''value'', JStr ''bar'')]]"
    by code_simp
  have resolved: "resolve_api ?c (JObj [(''name'', JStr ''Get'')]) = Some 0" by code_simp
  from http_conversion_keeps_declared_parameters [OF conv, of 0 "JObj [(''name'', JStr ''Get'')]"]
    before resolved
  have "p_query (declared_parameters (api_of c' 0))
        = JArr [JObj [(''name'', JStr ''foo''), (''value'', JStr ''bar'')]]"
    and "resolve_api c' (JObj [(''name'', JStr ''Get'')]) = Some 0"
    by simp_all
  moreover from query conv
  have "get_path (out (apiItems c')) [''httpApiCase'', ''parameters'', ''query'']
        = Some (JArr [JObj [(''name'', JStr ''foo''), (''value'', JStr ''new''), (''enable'', JBool True)]])"
    by (simp del: get_path.simps)
  ultimately show ?thesis using conv by blast
qed


subsection \<open>Merging twice\<close>

text \<open>
  Claim C3 (merge is idempotent by name). The code does not do what the claim says when
  two folders of the root collection have the same name. The name index of a folder is
  stored under the folder's name, so the index of the second folder \<^verbatim>\<open>F\<close> replaces that
  of the first, while \<^verbatim>\<open>findOrCreateFolder\<close> returns the first folder of that name. A test
  case \<^verbatim>\<open>d\<close> for the folder \<^verbatim>\<open>F\<close> is therefore looked up in the index of the second folder
  and appended to the items of the first: merging the same test case again appends it
  again, and the merged document has two items named \<^verbatim>\<open>d\<close> where the first merge gave
  one.
\<close>

theorem merge_twice_duplicates_in_repeated_folder:
  "merge (JObj [(''apiTestCaseCollection'', JArr [JObj [(''name'', JStr ''Root''),
            (''children'', JArr [JObj [(''name'', JStr ''F''), (''items'', JArr [])],
                                 JObj [(''name'', JStr ''F''), (''items'', JArr [])]]),
            (''items'', JArr [])]])])
     [JObj [(''name'', JStr ''d''), (''steps'', JArr []), (''_folder'', JStr ''F'')]]
   = Inr (JObj [(''apiTestCaseCollection'', JArr [JObj [(''name'', JStr ''Root''),
            (''children'', JArr [JObj [(''name'', JStr ''F''),
                                       (''items'', JArr [JObj [(''name'', JStr ''d''),
                                                               (''steps'', JArr [])]])],
                                 JObj [(''name'', JStr ''F''), (''items'', JArr [])]]),
            (''items'', JArr [])]])])
   \<and>
   merge (JObj [(''apiTestCaseCollection'', JArr [JObj [(''name'', JStr ''Root''),
            (''children'', JArr [JObj [(''name'', JStr ''F''),
                                       (''items'', JArr [JObj [(''name'', JStr ''d''),
                                                               (''steps'', JArr [])]])],
                                 JObj [(''name'', JStr ''F''), (''items'', JArr [])]]),
            (''items'', JArr [])]])])
     [JObj [(''name'', JStr ''d''), (''steps'', JArr []), (''_folder'', JStr ''F'')]]
   = Inr (JObj [(''apiTestCaseCollection'', JArr [JObj [(''name'', JStr ''Root''),
            (''children'', JArr [JObj [(''name'', JStr ''F''),
                                       (''items'', JArr [JObj [(''name'', JStr ''d''),
                                                               (''steps'', JArr [])],
                                                         JObj [(''name'', JStr ''d''),
                                                               (''steps'', JArr [])]])],
                                 JObj [(''name'', JStr ''F''), (''items'', JArr [])]]),
            (''items'', JArr [])]])])"
  by code_simp

subsection \<open>Link steps\<close>

lemma find_append:
  "List.find P (xs @ ys) = (case List.find P xs of None \<Rightarrow> List.find P ys | Some x \<Rightarrow> Some x)"
  by (induction xs) auto

lemma findStepByNumber_first:
  "JNull \<notin> set (all_steps steps) \<Longrightarrow>
   findStepByNumber steps n
     = Inr (List.find (\<lambda>s. same_value (get_prop s ''number'') (Some n)) (all_steps steps))"
proof (induction steps n rule: findStepByNumber.induct)
  case (1 targetNumber)
  show ?case by simp
next
  case (2 step steps targetNumber)
  let ?P = "\<lambda>s. same_value (get_prop s ''number'') (Some targetNumber)"
  from "2.prems" have nn: "step \<noteq> JNull" "JNull \<notin> set (all_steps (array_children step))"
    "JNull \<notin> set (all_steps steps)" by auto
  show ?case
  proof (cases "?P step")
    case True
    with nn show ?thesis by simp
  next
    case False
    from "2.IH"(1) [OF nn(1) False nn(2)]
    have ch: "findStepByNumber (array_children step) targetNumber
                = Inr (List.find ?P (all_steps (array_children step)))" .
    show ?thesis
    proof (cases "List.find ?P (all_steps (array_children step))")
      case None
      from "2.IH"(2) [OF nn(1) False _ _ nn(3)] ch None
      have "findStepByNumber steps targetNumber = Inr (List.find ?P (all_steps steps))" by simp
      with nn(1) False ch None show ?thesis by (simp add: find_append)
    next
      case (Some found)
      with nn(1) False ch show ?thesis by (simp add: find_append)
    qed
  qed
qed


lemma same_source_refl: "same_source c c"
  by (simp add: same_source_def same_store_def)

lemma generateId_source: "generateId c = (n, c') \<Longrightarrow> same_source c c'"
  by (auto simp: generateId_def same_source_def same_store_def)

lemma apply_override_source:
  "apply_override mode cookie ov s = Inr s' \<Longrightarrow> same_source (snd s) (snd s')"
  by (auto simp: apply_override_def same_source_refl generateId_source
      split: if_splits sum.splits option.splits prod.splits)

lemma fold_override_source:
  "fold_result (apply_override mode cookie) os s = Inr s' \<Longrightarrow> same_source (snd s) (snd s')"
proof (induction os arbitrary: s)
  case Nil
  then show ?case by (simp add: same_source_refl)
next
  case (Cons ov os)
  from Cons.prems obtain s1 where a: "apply_override mode cookie ov s = Inr s1"
    and b: "fold_result (apply_override mode cookie) os s1 = Inr s'"
    by (auto split: sum.splits)
  from apply_override_source [OF a] Cons.IH [OF b] show ?case
    by (simp add: same_source_def same_store_def)
qed

lemma apply_overrides_source:
  "apply_overrides mode cookie overrides params c = Inr (params', c') \<Longrightarrow> same_source c c'"
  by (auto simp: apply_overrides_def same_source_refl simp del: fold_result.simps
      split: option.splits json.splits list.splits sum.splits prod.splits
      dest!: fold_override_source)

lemma link_http_overrides_props:
  assumes "link_http_overrides step copied c = Inr (copied', c')"
  shows "same_source c c'" and "get_prop copied' ''number'' = get_prop copied ''number''"
    and "get_prop step ''query_params_override'' = None \<Longrightarrow> copied' = copied \<and> c' = c"
  using assms
  by (auto simp: link_http_overrides_def same_source_refl get_prop_set_path_other
      simp del: set_path.simps
      split: option.splits json.splits list.splits sum.splits prod.splits if_splits
      dest!: apply_overrides_source)

lemma link_custom_overrides_props:
  assumes "link_custom_overrides step copied = Inr copied'"
  shows "get_prop copied' ''number'' = get_prop copied ''number''"
    and "get_prop step ''query_params_override'' = None \<Longrightarrow> copied' = copied"
  using assms
  by (auto simp: link_custom_overrides_def get_prop_set_path_other
      simp del: set_path.simps
      split: option.splits json.splits list.splits sum.splits prod.splits if_splits)

lemma copy_single_step_props:
  assumes "copy_single_step step src c = Inr (outs, c')"
    and "get_prop src ''number'' \<noteq> None" and "truthy_opt (get_prop step ''number'')"
  shows "\<exists>copy. outs = [copy] \<and> get_prop copy ''number'' = get_prop step ''number''
          \<and> same_source c c'
          \<and> (get_prop step ''query_params_override'' = None \<longrightarrow>
                copy = set_path [''number''] (the (get_prop step ''number'')) src \<and> c' = c)"
proof -
  let ?copied = "set_path [''number''] (the (get_prop step ''number'')) src"
  have num: "get_prop ?copied ''number'' = get_prop step ''number''"
    using assms(2,3)
    by (cases "get_prop step ''number''")
       (auto simp: get_prop_set_path_same truthy_opt_def simp del: set_path.simps(2))
  have js: "js_or (get_prop step ''number'') (defined_or (get_prop src ''number'') JNull)
              = the (get_prop step ''number'')"
    using assms(3) by (simp add: js_or_def)
  from assms(1) obtain copied1 copied2 where
    a: "(if get_prop ?copied ''type'' = Some (JStr ''http'')
            \<and> truthy_opt (get_prop ?copied ''httpApiCase'')
         then link_http_overrides step ?copied c else Inr (?copied, c)) = Inr (copied1, c')"
    and b: "(if get_prop copied1 ''type'' = Some (JStr ''customHttp'')
               \<and> truthy_opt (get_prop copied1 ''customHttpRequest'')
            then link_custom_overrides step copied1 else Inr copied1) = Inr copied2"
    and outs: "outs = [copied2]"
    by (auto simp: copy_single_step_def Let_def js simp del: set_path.simps
        split: sum.splits prod.splits)
  have a': "same_source c c' \<and> get_prop copied1 ''number'' = get_prop ?copied ''number''
          \<and> (get_prop step ''query_params_override'' = None \<longrightarrow> copied1 = ?copied \<and> c' = c)"
  proof (cases "get_prop ?copied ''type'' = Some (JStr ''http'')
            \<and> truthy_opt (get_prop ?copied ''httpApiCase'')")
    case True
    from a [unfolded if_P [OF True]]
    have "link_http_overrides step ?copied c = Inr (copied1, c')" .
    from link_http_overrides_props [OF this] show ?thesis by blast
  next
    case False
    from a [unfolded if_not_P [OF False]]
    have "copied1 = ?copied" "c' = c" by (simp_all del: set_path.simps)
    then show ?thesis by (simp add: same_source_refl del: set_path.simps)
  qed
  have b': "get_prop copied2 ''number'' = get_prop copied1 ''number''
          \<and> (get_prop step ''query_params_override'' = None \<longrightarrow> copied2 = copied1)"
  proof (cases "get_prop copied1 ''type'' = Some (JStr ''customHttp'')
               \<and> truthy_opt (get_prop copied1 ''customHttpRequest'')")
    case True
    from b [unfolded if_P [OF True]]
    have "link_custom_overrides step copied1 = Inr copied2" .
    from link_custom_overrides_props [OF this] show ?thesis by blast
  next
    case False
    from b [unfolded if_not_P [OF False]]
    have "copied2 = copied1" by simp
    then show ?thesis by simp
  qed
  from a' b' num outs show ?thesis by (auto simp del: set_path.simps)
qed


lemma copy_single_step_plain:
  assumes "get_prop step ''query_params_override'' = None" and "truthy_opt (get_prop step ''number'')"
  shows "copy_single_step step src c
           = Inr ([set_path [''number''] (the (get_prop step ''number'')) src], c)"
  using assms
  by (simp add: copy_single_step_def Let_def js_or_def link_http_overrides_def
      link_custom_overrides_def del: set_path.simps)

lemma link_resolves:
  assumes "testCases c = Some index"
    and "truthy_opt (get_prop step ''link_to'')"
    and "map_get index (get_prop step ''link_to'') = Some testCase"
    and "get_prop testCase ''steps'' = Some (JArr steps)"
    and "JNull \<notin> set (all_steps steps)"
    and "link_step_number step = Some n" and "n \<noteq> JNull"
    and "List.find (\<lambda>s. same_value (get_prop s ''number'') (Some n)) (all_steps steps) = Some src"
  shows "convertLinkedSteps step c = copy_single_step step src c"
  using assms findStepByNumber_first [OF assms(5), of n]
  by (simp add: convertLinkedSteps_def)




subsection \<open>The steps that the reverse converter keeps\<close>

lemma get_prop_obj_Nil: "get_prop (obj []) k = None"
  by (simp add: obj_def get_prop_def List.map_filter_simps)

lemma get_prop_obj_Cons:
  "get_prop (obj ((k', v) # props)) k = (if k' = k \<and> v \<noteq> None then v else get_prop (obj props) k)"
  by (cases v) (simp_all add: obj_def get_prop_def List.map_filter_simps)

lemma reverse_convertHttpStep_some:
  assumes "reverse_convertHttpStep step = Inr (Some y)"
  shows "truthy_opt (get_prop step ''httpApiCase'')"
    and "get_prop y ''type'' = Some (JStr ''http'')"
    and "get_prop y ''number'' = Some (reverse_step_number step)"
proof -
  show t: "truthy_opt (get_prop step ''httpApiCase'')"
  proof (rule ccontr)
    assume "\<not> truthy_opt (get_prop step ''httpApiCase'')"
    then have "reverse_convertHttpStep step = Inr None"
      by (simp add: reverse_convertHttpStep_def Let_def js_or_def)
    with assms show False by simp
  qed
  then have "truthy (js_or (get_prop step ''httpApiCase'') JNull)"
    by (simp add: js_or_def truthy_opt_def split: option.splits)
  with assms obtain props where
    y: "y = obj ((''number'', Some (reverse_step_number step)) # (''name'', Some (js_or (get_prop step ''name'')
                                (JStr (''Step '' @ js_String (reverse_step_number step)))))
                 # (''type'', Some (JStr ''http'')) # props)"
    by (auto simp: reverse_convertHttpStep_def Let_def split: sum.splits)
  show "get_prop y ''type'' = Some (JStr ''http'')"
    unfolding y by (simp add: get_prop_obj_Cons)
  show "get_prop y ''number'' = Some (reverse_step_number step)"
    unfolding y by (simp add: get_prop_obj_Cons)
qed

lemma reverse_convertHttpStep_none:
  assumes "reverse_convertHttpStep step = Inr None"
  shows "\<not> truthy_opt (get_prop step ''httpApiCase'')"
proof
  assume "truthy_opt (get_prop step ''httpApiCase'')"
  then have "truthy (js_or (get_prop step ''httpApiCase'') JNull)"
    by (simp add: js_or_def truthy_opt_def split: option.splits)
  with assms show False
    by (auto simp: reverse_convertHttpStep_def Let_def split: sum.splits)
qed

lemma reverse_convertTestCaseRefStep_props:
  "get_prop (reverse_convertTestCaseRefStep r step) ''type'' = Some (JStr ''testCaseRef'')"
  "get_prop (reverse_convertTestCaseRefStep r step) ''number'' = Some (reverse_step_number step)"
  unfolding reverse_convertTestCaseRefStep_def by (simp_all add: get_prop_obj_Cons)

lemma reverse_convertDelayStep_props:
  "get_prop (reverse_convertDelayStep step) ''type'' = Some (JStr ''delay'')"
  "get_prop (reverse_convertDelayStep step) ''number'' = Some (reverse_step_number step)"
  unfolding reverse_convertDelayStep_def by (simp_all add: get_prop_def)

lemma reverse_convertScriptStep_props:
  assumes "reverse_convertScriptStep step = Inr y"
  shows "get_prop y ''type'' = Some (JStr ''script'')"
    and "get_prop y ''number'' = Some (reverse_step_number step)"
proof -
  from assms obtain props where
    y: "y = obj ((''number'', Some (reverse_step_number step)) # (''type'', Some (JStr ''script''))
                 # props)"
    by (auto simp: reverse_convertScriptStep_def split: json.splits)
  show "get_prop y ''type'' = Some (JStr ''script'')" unfolding y by (simp add: get_prop_obj_Cons)
  show "get_prop y ''number'' = Some (reverse_step_number step)"
    unfolding y by (simp add: get_prop_obj_Cons)
qed

lemma reverse_convertIfStep_props:
  assumes "reverse_convertIfStep r step = Inr y"
  shows "get_prop y ''type'' = Some (JStr ''if'')"
    and "get_prop y ''number'' = Some (reverse_step_number step)"
    and "\<And>children. get_prop step ''children'' = Some (JArr children) \<Longrightarrow>
           \<exists>ys. collect_some (reverse_convert_step r) children = Inr ys
                \<and> get_prop y ''children'' = Some (JArr ys)"
    and "(\<And>children. get_prop step ''children'' \<noteq> Some (JArr children)) \<Longrightarrow>
           get_prop y ''children'' = None"
proof -
  from assms obtain c condition where
    y: "y = obj [(''number'', Some (reverse_step_number step)), (''type'', Some (JStr ''if'')),
                 (''condition'', Some condition), (''children'', c)]"
    and c: "(case get_prop step ''children'' of
               Some (JArr children) \<Rightarrow>
                 (case collect_some (reverse_convert_step r) children of
                    Inl e \<Rightarrow> Inl e
                  | Inr converted \<Rightarrow> Inr (Some (JArr converted)))
             | _ \<Rightarrow> Inr None) = Inr c"
    by (subst (asm) reverse_convertIfStep.simps) (auto split: sum.splits)
  show "get_prop y ''type'' = Some (JStr ''if'')" unfolding y by (simp add: get_prop_obj_Cons)
  show "get_prop y ''number'' = Some (reverse_step_number step)"
    unfolding y by (simp add: get_prop_obj_Cons)
  have children: "get_prop y ''children'' = c"
    unfolding y by (simp add: get_prop_obj_Cons get_prop_obj_Nil)
  show "\<exists>ys. collect_some (reverse_convert_step r) children = Inr ys
             \<and> get_prop y ''children'' = Some (JArr ys)"
    if "get_prop step ''children'' = Some (JArr children)" for children
    using c that unfolding children by (auto split: sum.splits)
  show "get_prop y ''children'' = None"
    if "\<And>children. get_prop step ''children'' \<noteq> Some (JArr children)"
    using c that unfolding children by (auto split: option.splits json.splits)
qed

lemma collect_some_steps_kept:
  assumes "collect_some f xs = Inr ys"
    and "\<And>x y. x \<in> set xs \<Longrightarrow> f x = Inr (Some y) \<Longrightarrow> emitted x \<and> step_kept x y"
    and "\<And>x. x \<in> set xs \<Longrightarrow> f x = Inr None \<Longrightarrow> \<not> emitted x"
  shows "steps_kept xs ys"
  using assms
proof (induction xs arbitrary: ys)
  case Nil
  then show ?case by simp
next
  case (Cons x xs)
  from Cons.prems(1) obtain converted rest where
    fx: "f x = Inr converted" and tl: "collect_some f xs = Inr rest"
    and ys: "ys = (case converted of Some y \<Rightarrow> [y] | None \<Rightarrow> []) @ rest"
    by (auto split: sum.splits)
  have ih: "steps_kept xs rest"
    by (rule Cons.IH [OF tl]) (use Cons.prems(2,3) in auto)
  show ?case
  proof (cases converted)
    case None
    with fx Cons.prems(3) [of x] have "\<not> emitted x" by simp
    with ih ys None show ?thesis by simp
  next
    case (Some y)
    with fx Cons.prems(2) [of x y] have "emitted x" "step_kept x y" by simp_all
    with ih ys Some show ?thesis by simp
  qed
qed

lemma collect_some_conversions:
  assumes "collect_some f xs = Inr ys"
    and "\<And>x y. x \<in> set xs \<Longrightarrow> f x = Inr (Some y) \<Longrightarrow> P x"
    and "\<And>x. x \<in> set xs \<Longrightarrow> f x = Inr None \<Longrightarrow> \<not> P x"
  shows "list_all2 (\<lambda>x y. f x = Inr (Some y)) (filter P xs) ys"
  using assms
proof (induction xs arbitrary: ys)
  case Nil
  then show ?case by simp
next
  case (Cons x xs)
  from Cons.prems(1) obtain converted rest where
    fx: "f x = Inr converted" and tl: "collect_some f xs = Inr rest"
    and ys: "ys = (case converted of Some y \<Rightarrow> [y] | None \<Rightarrow> []) @ rest"
    by (auto split: sum.splits)
  have ih: "list_all2 (\<lambda>x y. f x = Inr (Some y)) (filter P xs) rest"
    by (rule Cons.IH [OF tl]) (use Cons.prems(2,3) in auto)
  show ?case
  proof (cases converted)
    case None
    with fx Cons.prems(3) [of x] have "\<not> P x" by simp
    with ih ys None show ?thesis by simp
  next
    case (Some y)
    with fx Cons.prems(2) [of x y] have "P x" by simp
    with ih ys Some fx show ?thesis by simp
  qed
qed

lemma emitted_type:
  "get_prop step ''type'' = Some (JStr t) \<Longrightarrow> t \<noteq> ''http'' \<Longrightarrow>
   emitted step \<longleftrightarrow> t \<in> {''testCaseRef'', ''delay'', ''script'', ''if''}"
  by (auto simp: emitted_def handled_type_def)

lemma step_kept_plain:
  "get_prop y ''type'' = get_prop step ''type'' \<Longrightarrow>
   get_prop y ''number'' = Some (reverse_step_number step) \<Longrightarrow>
   get_prop step ''type'' \<noteq> Some (JStr ''if'') \<Longrightarrow> step_kept step y"
  by (simp add: step_kept.simps)

lemma reverse_convert_step_kept:
  "\<forall>y. reverse_convertIfStep r step = Inr y \<longrightarrow> get_prop step ''type'' = Some (JStr ''if'') \<longrightarrow>
        step_kept step y"
  "(\<forall>y. reverse_convert_step r step = Inr (Some y) \<longrightarrow> emitted step \<and> step_kept step y)
   \<and> (reverse_convert_step r step = Inr None \<longrightarrow> \<not> emitted step)"
proof (induction r step and r step rule: reverse_convertIfStep_reverse_convert_step.induct)
  case (1 r step)
  show ?case
  proof (intro allI impI)
    fix y
    assume conv: "reverse_convertIfStep r step = Inr y"
      and type: "get_prop step ''type'' = Some (JStr ''if'')"
    note p = reverse_convertIfStep_props [OF conv]
    show "step_kept step y"
    proof (cases "\<exists>children. get_prop step ''children'' = Some (JArr children)")
      case True
      then obtain children where ch: "get_prop step ''children'' = Some (JArr children)" ..
      from p(3) [OF ch] obtain ys where
        ys: "collect_some (reverse_convert_step r) children = Inr ys"
            "get_prop y ''children'' = Some (JArr ys)"
        by blast
      have "steps_kept children ys"
        by (rule collect_some_steps_kept [OF ys(1)]) (use 1 [OF ch refl] in auto)
      with p(1,2) type ch ys(2) show ?thesis by (simp add: step_kept.simps)
    next
      case False
      then have "get_prop y ''children'' = None" using p(4) by blast
      with False p(1,2) type show ?thesis
        by (auto simp: step_kept.simps split: option.splits json.splits)
    qed
  qed
next
  case (2 r step)
  show ?case
  proof (cases "step = JNull")
    case True
    then show ?thesis by (subst reverse_convert_step.simps)+ simp
  next
    case nn: False
    consider (http) "get_prop step ''type'' = Some (JStr ''http'')"
      | (ref) "get_prop step ''type'' = Some (JStr ''testCaseRef'')"
      | (delay) "get_prop step ''type'' = Some (JStr ''delay'')"
      | (script) "get_prop step ''type'' = Some (JStr ''script'')"
      | (cond) "get_prop step ''type'' = Some (JStr ''if'')"
      | (other) "get_prop step ''type'' \<notin> set (map (\<lambda>t. Some (JStr t))
                   [''http'', ''testCaseRef'', ''delay'', ''script'', ''if''])"
      by auto
    then show ?thesis
    proof cases
      case http
      have eq: "reverse_convert_step r step = reverse_convertHttpStep step"
        using nn http by (subst reverse_convert_step.simps) simp
      show ?thesis
        unfolding eq
        using reverse_convertHttpStep_some [of step] reverse_convertHttpStep_none [of step] http
        by (auto simp: emitted_def step_kept_plain)
    next
      case ref
      have eq: "reverse_convert_step r step = Inr (Some (reverse_convertTestCaseRefStep r step))"
        using nn ref by (subst reverse_convert_step.simps) simp
      show ?thesis
        unfolding eq using ref reverse_convertTestCaseRefStep_props [of r step]
        by (auto simp: emitted_type step_kept_plain)
    next
      case delay
      have eq: "reverse_convert_step r step = Inr (Some (reverse_convertDelayStep step))"
        using nn delay by (subst reverse_convert_step.simps) simp
      show ?thesis
        unfolding eq using delay reverse_convertDelayStep_props [of step]
        by (auto simp: emitted_type step_kept_plain)
    next
      case script
      have eq: "reverse_convert_step r step =
                  (case reverse_convertScriptStep step of Inl e \<Rightarrow> Inl e | Inr y \<Rightarrow> Inr (Some y))"
        using nn script by (subst reverse_convert_step.simps) simp
      show ?thesis
        unfolding eq using script reverse_convertScriptStep_props [of step]
        by (auto simp: emitted_type step_kept_plain split: sum.splits)
    next
      case cond
      have eq: "reverse_convert_step r step =
                  (case reverse_convertIfStep r step of Inl e \<Rightarrow> Inl e | Inr y \<Rightarrow> Inr (Some y))"
        using nn cond by (subst reverse_convert_step.simps) simp
      have ih: "\<forall>y. reverse_convertIfStep r step = Inr y \<longrightarrow> step_kept step y"
        using 2 [OF nn] cond by simp
      show ?thesis
        unfolding eq using cond ih by (auto simp: emitted_type split: sum.splits)
    next
      case other
      then have eq: "reverse_convert_step r step = Inr None"
        using nn by (subst reverse_convert_step.simps) auto
      show ?thesis
        unfolding eq using other by (auto simp: emitted_def handled_type_def)
    qed
  qed
qed

lemma reverse_convert_steps:
  assumes "reverse_convert r testCase sourceApidogPath = Inr yamlData"
  shows "\<exists>ys. collect_some (reverse_convert_step r) (steps_of testCase) = Inr ys
              \<and> get_prop yamlData ''steps'' = Some (JArr ys)"
proof -
  from assms have "testCase \<noteq> JNull" by (auto simp: reverse_convert_def)
  with assms obtain ds ys where
    ys: "collect_some (reverse_convert_step r) (steps_of testCase) = Inr ys"
    and y: "yamlData = obj [(''name'', Some (js_or (get_prop testCase ''name'') (JStr ''Test Scenario''))),
               (''description'', Some (js_or (get_prop testCase ''description'') (JStr ''''))),
               (''priority'', Some (js_or (get_prop testCase ''priority'') (JNum 2))),
               (''tags'', Some (js_or (get_prop testCase ''tags'') (JArr []))),
               (''source_apidog'', if truthy sourceApidogPath then Some sourceApidogPath else None),
               (''options'', reverse_options testCase),
               (''datasets'', Some (JArr ds)),
               (''steps'', Some (JArr ys))]"
    by (auto simp: reverse_convert_def steps_of_def split: sum.splits)
  have "get_prop yamlData ''steps'' = Some (JArr ys)"
    unfolding y by (simp add: get_prop_obj_Cons)
  with ys show ?thesis by blast
qed




subsection \<open>Forward and back\<close>

text \<open>
  Claim C4 (round trip of a scenario with \<^verbatim>\<open>http\<close> and \<^verbatim>\<open>delay\<close> steps). The code does not
  do what the claim says for a step with \<^verbatim>\<open>request_form_data_override\<close>. The forward
  converter writes the fields into \<^verbatim>\<open>requestBody.parameters\<close> and sets the type
  \<^verbatim>\<open>multipart/form-data\<close>, and leaves \<^verbatim>\<open>requestBody.data\<close> as the endpoint has it, the empty
  string when it has none. \<^verbatim>\<open>extractRequestBodyOverride\<close> of the reverse converter returns
  \<^verbatim>\<open>null\<close> for a request body without data before it looks at the form data, so the
  scenario that comes back has no override. Here the source file declares one endpoint
  \<^verbatim>\<open>Upload\<close> with the form field \<^verbatim>\<open>file\<close>, and the scenario has an \<^verbatim>\<open>http\<close> step for it
  that sets \<^verbatim>\<open>file\<close> to \<^verbatim>\<open>a.png\<close>, and a \<^verbatim>\<open>delay\<close> step. The theorem gives the request
  bodies of the steps of the test case, and the scenario made from the test case.
\<close>

theorem round_trip_drops_form_data_override:
  "(case convert
           (\<lambda>p. if p = ''src.json'' then
                  Some (JObj [(''apiCollection'', JArr [JObj [(''name'', JStr ''Root''),
                     (''items'', JArr [JObj [(''name'', JStr ''Upload''),
                        (''api'', JObj [(''id'', JStr ''5''), (''method'', JStr ''post''),
                           (''path'', JStr ''/upload''),
                           (''requestBody'', JObj [(''type'', JStr ''multipart/form-data''),
                              (''parameters'', JArr [JObj [(''name'', JStr ''file''),
                                 (''value'', JStr ''''), (''enable'', JBool True)]])])])]])]])])
                else None)
           (JObj [(''name'', JStr ''S''), (''source_apidog'', JStr ''src.json''),
                  (''steps'', JArr
                     [JObj [(''number'', JNum 1), (''name'', JStr ''Upload''), (''type'', JStr ''http''),
                            (''request_form_data_override'',
                               JArr [JObj [(''name'', JStr ''file''), (''value'', JStr ''a.png'')]])],
                      JObj [(''number'', JNum 2), (''type'', JStr ''delay''), (''timeout'', JNum 500)]])])
           (new_converter (\<lambda>n. [])) of
      Inl e \<Rightarrow> Inl e
    | Inr (testCase, c) \<Rightarrow>
        Inr (map (\<lambda>step. get_path step [''httpApiCase'', ''requestBody'']) (steps_of testCase),
             reverse_convert new_reverse_converter testCase JNull))
   = Inr ([Some (JObj [(''parameters'', JArr [JObj [(''name'', JStr ''file''),
                          (''value'', JStr ''a.png''), (''enable'', JBool True),
                          (''type'', JStr ''string'')]]),
                       (''type'', JStr ''multipart/form-data''),
                       (''data'', JStr ''''),
                       (''generateMode'', JStr ''normal'')]),
           None],
          Inr (JObj [(''name'', JStr ''S''), (''description'', JStr ''''), (''priority'', JNum 2),
                     (''tags'', JArr []),
                     (''options'', JObj [(''environment_id'', JNum 0), (''iteration_count'', JNum 1),
                        (''thread_count'', JNum 1), (''on_error'', JStr ''ignore''),
                        (''delay_item'', JNum 0), (''save_report_detail'', JStr ''all'')]),
                     (''datasets'', JArr []),
                     (''steps'', JArr
                        [JObj [(''number'', JNum 1), (''name'', JStr ''Upload''),
                               (''type'', JStr ''http''), (''path'', JStr ''/upload''),
                               (''method'', JStr ''POST'')],
                         JObj [(''number'', JNum 2), (''type'', JStr ''delay''),
                               (''timeout'', JNum 500)]])]))"
  by code_simp
end
